theory Spec2Isabelle
  imports Main "HOL-Library.Word"
begin

unbundle bit_operations_syntax

section \<open>The byte stream and the errors\<close>

type_synonym byte = "8 word"
type_synonym UInt32 = "32 word"
type_synonym UInt64 = "64 word"

text \<open>
  The exceptions of the reader as values.  \<open>UNKNOWN_PROTOBUF_FORMAT\<close> and
  \<open>PROTOBUF_BAD_CAST\<close> are the two error codes of ProtobufReader.cpp;
  \<open>READ_BUFFER_ERROR\<close> stands for whatever the byte stream throws when it runs out
  of bytes; \<open>EMPTY_OPTIONAL_DEREFERENCE\<close> marks the dereference of a
  \<open>std::optional\<close> that holds no value (undefined behaviour in C++).
\<close>

datatype error =
    UNKNOWN_PROTOBUF_FORMAT
  | PROTOBUF_BAD_CAST
  | READ_BUFFER_ERROR
  | EMPTY_OPTIONAL_DEREFERENCE

primrec andThen :: "error + 'a \<Rightarrow> ('a \<Rightarrow> error + 'b) \<Rightarrow> error + 'b" where
  "andThen (Inl e) f = Inl e"
| "andThen (Inr x) f = f x"

text \<open>
  Modelled from the spec: the byte-stream interface \<open>ReadBuffer\<close> (IO/ReadBuffer.h is
  not part of the sources).  One in-memory buffer and a position in it: \<open>eof\<close>,
  \<open>readStrict\<close> (fills n bytes or fails), \<open>ignore\<close> (advances n bytes, fails at
  the end of the stream), \<open>offset\<close> (position in the buffer) and the bounded rewind
  \<open>position() -= n\<close>.
\<close>

record ReadBuffer =
  working_buffer :: "byte list"
  pos :: nat

definition eof :: "ReadBuffer \<Rightarrow> bool" where
  "eof rb = (length (working_buffer rb) \<le> pos rb)"

definition readStrict :: "ReadBuffer \<Rightarrow> nat \<Rightarrow> error + (byte list \<times> ReadBuffer)" where
  "readStrict rb n =
     (if pos rb + n \<le> length (working_buffer rb)
      then Inr (take n (drop (pos rb) (working_buffer rb)), rb\<lparr>pos := pos rb + n\<rparr>)
      else Inl READ_BUFFER_ERROR)"

definition readStrict1 :: "ReadBuffer \<Rightarrow> error + (byte \<times> ReadBuffer)" where
  "readStrict1 rb =
     (if pos rb < length (working_buffer rb)
      then Inr (working_buffer rb ! pos rb, rb\<lparr>pos := pos rb + 1\<rparr>)
      else Inl READ_BUFFER_ERROR)"

definition ignore_in :: "ReadBuffer \<Rightarrow> nat \<Rightarrow> error + ReadBuffer" where
  "ignore_in rb n =
     (if pos rb + n \<le> length (working_buffer rb)
      then Inr (rb\<lparr>pos := pos rb + n\<rparr>)
      else Inl READ_BUFFER_ERROR)"

definition offset :: "ReadBuffer \<Rightarrow> nat" where
  "offset rb = pos rb"

section \<open>The wire-format scanner (ProtobufReader::SimpleReader)\<close>

datatype WireType = VARINT | BITS64 | LENGTH_DELIMITED | GROUP_START | GROUP_END | BITS32

text \<open>\<open>static_cast<WireType>(key & 0x07)\<close>: the values 6 and 7 name no enumerator,
  so no \<open>case\<close> of a \<open>switch\<close> matches them.\<close>

definition to_WireType :: "UInt64 \<Rightarrow> WireType option" where
  "to_WireType k =
     (if k = 0 then Some VARINT
      else if k = 1 then Some BITS64
      else if k = 2 then Some LENGTH_DELIMITED
      else if k = 3 then Some GROUP_START
      else if k = 4 then Some GROUP_END
      else if k = 5 then Some BITS32
      else None)"

text \<open>Modelled from the spec: the sentinel \<open>REACHED_END\<close> (declared in
  ProtobufReader.h, which is not part of the sources) is 0.\<close>

definition REACHED_END :: UInt64 where
  "REACHED_END = 0"

definition END_OF_VARINT :: UInt64 where
  "END_OF_VARINT = - 1"

definition END_OF_GROUP :: UInt64 where
  "END_OF_GROUP = - 2"

definition decodeZigZag :: "UInt64 \<Rightarrow> UInt64" where
  "decodeZigZag n = (drop_bit 1 n) XOR (NOT (n AND 1) + 1)"

definition unknownFormat :: "error + 'a" where
  "unknownFormat = Inl UNKNOWN_PROTOBUF_FORMAT"

record SimpleReader =
  inp :: ReadBuffer
  cursor :: UInt64
  current_message_end :: UInt64
  field_end :: UInt64
  parent_message_ends :: "UInt64 list"

definition SimpleReader_init :: "ReadBuffer \<Rightarrow> SimpleReader" where
  "SimpleReader_init rb =
     \<lparr>inp = rb, cursor = 1, current_message_end = REACHED_END, field_end = REACHED_END,
      parent_message_ends = []\<rparr>"

definition readBinary :: "SimpleReader \<Rightarrow> nat \<Rightarrow> error + (byte list \<times> SimpleReader)" where
  "readBinary s n =
     andThen (readStrict (inp s) n)
       (\<lambda>(bs, rb). Inr (bs, s\<lparr>inp := rb, cursor := cursor s + of_nat n\<rparr>))"

definition ignore :: "SimpleReader \<Rightarrow> UInt64 \<Rightarrow> error + SimpleReader" where
  "ignore s num_bytes =
     andThen (ignore_in (inp s) (unat num_bytes))
       (\<lambda>rb. Inr (s\<lparr>inp := rb, cursor := cursor s + num_bytes\<rparr>))"

definition moveCursorBackward :: "SimpleReader \<Rightarrow> UInt64 \<Rightarrow> error + SimpleReader" where
  "moveCursorBackward s num_bytes =
     (if offset (inp s) < unat num_bytes then unknownFormat
      else Inr (s\<lparr>inp := (inp s)\<lparr>pos := pos (inp s) - unat num_bytes\<rparr>,
                  cursor := cursor s - num_bytes\<rparr>))"

text \<open>
  \<open>readVarint\<close> expands the macro \<open>PROTOBUF_READER_VARINT_READ_HELPER(i)\<close> for
  i = 0..9 and ends in \<open>unknownFormat()\<close>.  \<open>READ_HELPER i result s\<close> is the code
  from the i-th expansion on.  \<open>char\<close> is signed: \<open>static_cast<UInt64>(c)\<close> extends
  the sign (\<open>scast\<close>).
\<close>

function READ_HELPER :: "nat \<Rightarrow> UInt64 \<Rightarrow> SimpleReader \<Rightarrow> error + (UInt64 \<times> SimpleReader)" where
  "READ_HELPER i result s =
     (if 10 \<le> i then unknownFormat
      else case readStrict1 (inp s) of
        Inl e \<Rightarrow> Inl e
      | Inr (c, rb) \<Rightarrow>
          (let s1 = s\<lparr>inp := rb\<rparr>;
               result1 = result OR push_bit (7 * i) (scast c)
           in if i < 9
              then if c AND 0x80 = 0
                   then Inr (result1, s1\<lparr>cursor := cursor s1 + of_nat (i + 1)\<rparr>)
                   else READ_HELPER (i + 1)
                          (if i < 8 then result1 AND (push_bit (7 * i) 0x80 - 1) else result1) s1
              else if c = 1
                   then Inr (result1, s1\<lparr>cursor := cursor s1 + of_nat (i + 1)\<rparr>)
                   else READ_HELPER (i + 1) result1 s1))"
  by pat_completeness auto
termination
  by (relation "measure (\<lambda>(i, result, s). 10 - i)") auto

definition readVarint :: "SimpleReader \<Rightarrow> error + (UInt64 \<times> SimpleReader)" where
  "readVarint s = READ_HELPER 0 0 s"

function IGNORE_HELPER :: "nat \<Rightarrow> SimpleReader \<Rightarrow> error + SimpleReader" where
  "IGNORE_HELPER i s =
     (if 10 \<le> i then unknownFormat
      else case readStrict1 (inp s) of
        Inl e \<Rightarrow> Inl e
      | Inr (c, rb) \<Rightarrow>
          (let s1 = s\<lparr>inp := rb\<rparr>
           in if i < 9
              then if c AND 0x80 = 0
                   then Inr (s1\<lparr>cursor := cursor s1 + of_nat (i + 1)\<rparr>)
                   else IGNORE_HELPER (i + 1) s1
              else if c = 1
                   then Inr (s1\<lparr>cursor := cursor s1 + of_nat (i + 1)\<rparr>)
                   else IGNORE_HELPER (i + 1) s1))"
  by pat_completeness auto
termination
  by (relation "measure (\<lambda>(i, s). 10 - i)") auto

definition ignoreVarint :: "SimpleReader \<Rightarrow> error + SimpleReader" where
  "ignoreVarint s = IGNORE_HELPER 0 s"

text \<open>
  \<open>ignoreGroup\<close>: one turn of the \<open>while (true)\<close> loop reads a tag, runs the
  \<open>switch\<close> and then reaches \<open>unknownFormat()\<close>, the statement after the
  \<open>switch\<close>.  A \<open>case\<close> leaves the \<open>switch\<close> either by \<open>return\<close>
  (\<open>Returned\<close>) or by \<open>break\<close> (\<open>Broke\<close>, with the value of \<open>level\<close>).
\<close>

datatype switch_exit = Returned | Broke UInt64

definition ignoreGroup_switch ::
  "UInt64 \<Rightarrow> UInt64 \<Rightarrow> SimpleReader \<Rightarrow> error + (switch_exit \<times> SimpleReader)" where
  "ignoreGroup_switch level varint s =
     (case to_WireType (varint AND 0x07) of
        Some VARINT \<Rightarrow> andThen (ignoreVarint s) (\<lambda>s1. Inr (Broke level, s1))
      | Some BITS64 \<Rightarrow> andThen (ignore s 8) (\<lambda>s1. Inr (Broke level, s1))
      | Some LENGTH_DELIMITED \<Rightarrow>
          andThen (readVarint s)
            (\<lambda>(n, s1). andThen (ignore s1 n) (\<lambda>s2. Inr (Broke level, s2)))
      | Some GROUP_START \<Rightarrow> Inr (Broke (level + 1), s)
      | Some GROUP_END \<Rightarrow>
          (if level - 1 = 0 then Inr (Returned, s) else Inr (Broke (level - 1), s))
      | Some BITS32 \<Rightarrow> andThen (ignore s 4) (\<lambda>s1. Inr (Broke level, s1))
      | None \<Rightarrow> Inr (Broke level, s))"

function ignoreGroup_loop :: "UInt64 \<Rightarrow> SimpleReader \<Rightarrow> error + SimpleReader" where
  "ignoreGroup_loop level s =
     (case readVarint s of
        Inl e \<Rightarrow> Inl e
      | Inr (varint, s1) \<Rightarrow>
          (case ignoreGroup_switch level varint s1 of
             Inl e \<Rightarrow> Inl e
           | Inr (Returned, s2) \<Rightarrow> Inr s2
           | Inr (Broke level', s2) \<Rightarrow>
               (case (unknownFormat :: error + unit) of
                  Inl e \<Rightarrow> Inl e
                | Inr u \<Rightarrow> ignoreGroup_loop level' s2)))"
  by pat_completeness auto
termination
  by (relation "{}") (simp_all add: unknownFormat_def)

definition ignoreGroup :: "SimpleReader \<Rightarrow> error + SimpleReader" where
  "ignoreGroup s = ignoreGroup_loop 1 s"

definition startMessage :: "SimpleReader \<Rightarrow> error + (bool \<times> SimpleReader)" where
  "startMessage s =
     (if current_message_end s = REACHED_END \<and> parent_message_ends s = []
      then if eof (inp s) then Inr (False, s)
           else andThen (readVarint s)
                  (\<lambda>(size_of_message, s1).
                     Inr (True, s1\<lparr>current_message_end := cursor s1 + size_of_message,
                                    field_end := REACHED_END\<rparr>))
      else Inr (True, s\<lparr>parent_message_ends := parent_message_ends s @ [current_message_end s],
                         current_message_end := field_end s,
                         field_end := REACHED_END\<rparr>))"

definition endMessage :: "SimpleReader \<Rightarrow> error + SimpleReader" where
  "endMessage s =
     andThen
       (if current_message_end s \<noteq> REACHED_END
        then andThen
               (if current_message_end s = END_OF_GROUP then ignoreGroup s
                else if cursor s < current_message_end s
                then ignore s (current_message_end s - cursor s)
                else if current_message_end s < cursor s
                then andThen (if parent_message_ends s \<noteq> [] then unknownFormat else Inr s)
                       (\<lambda>s1. moveCursorBackward s1 (cursor s1 - current_message_end s1))
                else Inr s)
               (\<lambda>s1. Inr (s1\<lparr>current_message_end := REACHED_END\<rparr>))
        else Inr s)
       (\<lambda>s1. let s2 = s1\<lparr>field_end := REACHED_END\<rparr>
             in if parent_message_ends s2 \<noteq> []
                then Inr (s2\<lparr>current_message_end := last (parent_message_ends s2),
                              parent_message_ends := butlast (parent_message_ends s2)\<rparr>)
                else Inr s2)"

definition endRootMessage :: "SimpleReader \<Rightarrow> error + SimpleReader" where
  "endRootMessage s =
     (let message_end = (if parent_message_ends s = [] then current_message_end s
                         else hd (parent_message_ends s))
      in andThen
           (if message_end \<noteq> REACHED_END
            then if cursor s < message_end then ignore s (message_end - cursor s)
                 else if message_end < cursor s
                 then moveCursorBackward s (cursor s - message_end)
                 else Inr s
            else Inr s)
           (\<lambda>s1. Inr (s1\<lparr>parent_message_ends := [],
                         current_message_end := REACHED_END,
                         field_end := REACHED_END\<rparr>)))"

text \<open>\<open>readFieldNumber\<close> returns \<open>Some field_number\<close> for \<open>true\<close> and \<open>None\<close>
  for \<open>false\<close>.\<close>

definition readFieldNumber :: "SimpleReader \<Rightarrow> error + (UInt32 option \<times> SimpleReader)" where
  "readFieldNumber s =
     andThen
       (if field_end s \<noteq> REACHED_END
        then andThen
               (if field_end s = END_OF_VARINT then ignoreVarint s
                else if field_end s = END_OF_GROUP then ignoreGroup s
                else if cursor s < field_end s then ignore s (field_end s - cursor s)
                else Inr s)
               (\<lambda>s1. Inr (s1\<lparr>field_end := REACHED_END\<rparr>))
        else Inr s)
       (\<lambda>s1.
          if current_message_end s1 \<le> cursor s1
          then Inr (None, s1\<lparr>current_message_end := REACHED_END\<rparr>)
          else andThen (readVarint s1)
            (\<lambda>(varint, s2).
               if varint AND push_bit 32 0xFFFFFFFF \<noteq> 0 then unknownFormat
               else
                 let key = (ucast varint :: UInt32);
                     field_number = drop_bit 3 key
                 in case to_WireType (ucast (key AND 0x07)) of
                      Some BITS64 \<Rightarrow> Inr (Some field_number, s2\<lparr>field_end := cursor s2 + 8\<rparr>)
                    | Some LENGTH_DELIMITED \<Rightarrow>
                        andThen (readVarint s2)
                          (\<lambda>(len, s3). Inr (Some field_number, s3\<lparr>field_end := cursor s3 + len\<rparr>))
                    | Some VARINT \<Rightarrow> Inr (Some field_number, s2\<lparr>field_end := END_OF_VARINT\<rparr>)
                    | Some GROUP_START \<Rightarrow> Inr (Some field_number, s2\<lparr>field_end := END_OF_GROUP\<rparr>)
                    | Some GROUP_END \<Rightarrow>
                        (if current_message_end s2 \<noteq> END_OF_GROUP then unknownFormat
                         else Inr (None, s2\<lparr>current_message_end := REACHED_END\<rparr>))
                    | Some BITS32 \<Rightarrow> Inr (Some field_number, s2\<lparr>field_end := cursor s2 + 4\<rparr>)
                    | None \<Rightarrow> unknownFormat))"

text \<open>The typed readers return \<open>Some value\<close> for \<open>true\<close> and \<open>None\<close> for
  \<open>false\<close>.  An \<open>Int64\<close> is given by its value (\<open>sint\<close> of the 64 bits).\<close>

definition readUInt :: "SimpleReader \<Rightarrow> error + (UInt64 option \<times> SimpleReader)" where
  "readUInt s =
     (if field_end s \<le> cursor s then Inr (None, s\<lparr>field_end := REACHED_END\<rparr>)
      else andThen (readVarint s)
             (\<lambda>(v, s1).
                Inr (Some v,
                     if field_end s1 = END_OF_VARINT \<or> field_end s1 \<le> cursor s1
                     then s1\<lparr>field_end := REACHED_END\<rparr> else s1)))"

definition readInt :: "SimpleReader \<Rightarrow> error + (int option \<times> SimpleReader)" where
  "readInt s =
     andThen (readUInt s)
       (\<lambda>(r, s1). case r of None \<Rightarrow> Inr (None, s1)
                  | Some varint \<Rightarrow> Inr (Some (sint varint), s1))"

definition readSInt :: "SimpleReader \<Rightarrow> error + (int option \<times> SimpleReader)" where
  "readSInt s =
     andThen (readUInt s)
       (\<lambda>(r, s1). case r of None \<Rightarrow> Inr (None, s1)
                  | Some varint \<Rightarrow> Inr (Some (sint (decodeZigZag varint)), s1))"

text \<open>\<open>readFixed<T>\<close> with \<open>sizeof(T) = n\<close>: the n bytes, as they are in the
  stream.\<close>

definition readFixed :: "nat \<Rightarrow> SimpleReader \<Rightarrow> error + (byte list option \<times> SimpleReader)" where
  "readFixed n s =
     (if field_end s \<le> cursor s then Inr (None, s\<lparr>field_end := REACHED_END\<rparr>)
      else andThen (readBinary s n)
             (\<lambda>(bs, s1).
                Inr (Some bs,
                     if field_end s1 \<le> cursor s1 then s1\<lparr>field_end := REACHED_END\<rparr> else s1)))"

text \<open>\<open>readStringInto\<close> returns the bytes to append to \<open>str\<close>.\<close>

definition readStringInto :: "SimpleReader \<Rightarrow> error + (byte list option \<times> SimpleReader)" where
  "readStringInto s =
     (if field_end s < cursor s then Inr (None, s)
      else andThen (readBinary s (unat (field_end s - cursor s)))
             (\<lambda>(bs, s1). Inr (Some bs, s1\<lparr>field_end := REACHED_END\<rparr>)))"

section \<open>The value converters\<close>

text \<open>
  Integers of the converters are given by their values (\<open>int\<close>), each with the
  C++ type it has.  \<open>lowest\<close> and \<open>highest\<close> are \<open>std::numeric_limits\<close>.
\<close>

datatype num_type = Int8 | UInt8 | Int16 | UInt16 | Int32 | UInt32 | Int64 | UInt64

fun lowest :: "num_type \<Rightarrow> int" where
  "lowest Int8 = - (2 ^ 7)"
| "lowest UInt8 = 0"
| "lowest Int16 = - (2 ^ 15)"
| "lowest UInt16 = 0"
| "lowest Int32 = - (2 ^ 31)"
| "lowest UInt32 = 0"
| "lowest Int64 = - (2 ^ 63)"
| "lowest UInt64 = 0"

fun highest :: "num_type \<Rightarrow> int" where
  "highest Int8 = 2 ^ 7 - 1"
| "highest UInt8 = 2 ^ 8 - 1"
| "highest Int16 = 2 ^ 15 - 1"
| "highest UInt16 = 2 ^ 16 - 1"
| "highest Int32 = 2 ^ 31 - 1"
| "highest UInt32 = 2 ^ 32 - 1"
| "highest Int64 = 2 ^ 63 - 1"
| "highest UInt64 = 2 ^ 64 - 1"

definition cannotConvertType :: "error + 'a" where
  "cannotConvertType = Inl PROTOBUF_BAD_CAST"

definition cannotConvertValue :: "error + 'a" where
  "cannotConvertValue = Inl PROTOBUF_BAD_CAST"

text \<open>Modelled from the spec: \<open>boost::numeric_cast<To>\<close> (the library is not part of
  the sources) checks the range of the target type; \<open>None\<close> is
  \<open>bad_numeric_cast\<close>.\<close>

definition numeric_cast :: "num_type \<Rightarrow> int \<Rightarrow> int option" where
  "numeric_cast To v = (if lowest To \<le> v \<and> v \<le> highest To then Some v else None)"

definition numericCast :: "num_type \<Rightarrow> num_type \<Rightarrow> int \<Rightarrow> error + int" where
  "numericCast To From v =
     (if To = From then Inr v
      else case numeric_cast To v of
             Some r \<Rightarrow> Inr r
           | None \<Rightarrow> cannotConvertValue)"

text \<open>\<open>static_cast<T>\<close> of an integer to a signed type wraps around.\<close>

definition static_cast_signed :: "nat \<Rightarrow> int \<Rightarrow> int" where
  "static_cast_signed bits v = (v + 2 ^ (bits - 1)) mod 2 ^ bits - 2 ^ (bits - 1)"

fun static_cast_enum :: "num_type \<Rightarrow> int \<Rightarrow> int" where
  "static_cast_enum Int8 v = static_cast_signed 8 v"
| "static_cast_enum Int16 v = static_cast_signed 16 v"
| "static_cast_enum T v = v"

subsection \<open>ConverterFromNumber\<close>

text \<open>
  A \<open>float\<close> or a \<open>double\<close> (IEEE 754 binary32 and binary64) is given by its
  value: a finite one is \<open>m * 2 ^ e\<close> for the integers \<open>m\<close> and \<open>e\<close> of
  \<open>Finite m e\<close>; \<open>Infinite negative\<close> is an infinity; \<open>NaN\<close> is not a number.
  \<open>ieee754\<close> reads the value off the bits \<open>w\<close> of a format with the given numbers
  of exponent and fraction bits.
\<close>

datatype fp_value = Finite int int | Infinite bool | NaN

definition ieee754 :: "nat \<Rightarrow> nat \<Rightarrow> int \<Rightarrow> fp_value" where
  "ieee754 exponent_bits fraction_bits w =
     (let fraction = w mod 2 ^ fraction_bits;
          exponent = (w div 2 ^ fraction_bits) mod 2 ^ exponent_bits;
          negative = ((w div 2 ^ (fraction_bits + exponent_bits)) mod 2 = 1);
          bias = 2 ^ (exponent_bits - 1) - 1;
          sign = (if negative then - 1 else 1)
      in if exponent = 2 ^ exponent_bits - 1
         then (if fraction = 0 then Infinite negative else NaN)
         else if exponent = 0
         then Finite (sign * fraction) (1 - bias - int fraction_bits)
         else Finite (sign * (2 ^ fraction_bits + fraction))
                (exponent - bias - int fraction_bits))"

text \<open>The integer part of a floating-point value (rounding toward zero); infinities
  and NaN have none.\<close>

fun truncated :: "fp_value \<Rightarrow> int option" where
  "truncated (Finite m e) =
     Some (if 0 \<le> e then m * 2 ^ nat e else sgn m * (\<bar>m\<bar> div 2 ^ nat (- e)))"
| "truncated (Infinite negative) = None"
| "truncated NaN = None"

text \<open>Modelled from the spec: \<open>boost::numeric_cast<To>\<close> of a \<open>float\<close> or
  \<open>double\<close> to an integral type (the library is not part of the sources) gives the
  integer part of the value when that is in the range of the target type; \<open>None\<close> is
  \<open>bad_numeric_cast\<close>.  An infinity or a NaN is in the range of no integral type.\<close>

definition numeric_cast_Floating :: "num_type \<Rightarrow> fp_value \<Rightarrow> int option" where
  "numeric_cast_Floating To x =
     (case truncated x of
        Some v \<Rightarrow> if lowest To \<le> v \<and> v \<le> highest To then Some v else None
      | None \<Rightarrow> None)"

text \<open>\<open>numericCast<To, From>\<close> for \<open>From = float\<close> and \<open>From = double\<close>: the
  target \<open>To\<close> is integral, so \<open>std::is_same_v<To, From>\<close> is false.\<close>

definition numericCast_Floating :: "num_type \<Rightarrow> fp_value \<Rightarrow> error + int" where
  "numericCast_Floating To x =
     (case numeric_cast_Floating To x of
        Some r \<Rightarrow> Inr r
      | None \<Rightarrow> cannotConvertValue)"

text \<open>The twelve instantiations \<open>ConverterFromNumber<field_type_id, T>\<close>;
  \<open>field_type\<close> is the type \<open>T\<close> of each.\<close>

datatype field_type_id =
    TYPE_INT32 | TYPE_SINT32 | TYPE_UINT32 | TYPE_INT64 | TYPE_SINT64 | TYPE_UINT64
  | TYPE_FIXED32 | TYPE_SFIXED32 | TYPE_FIXED64 | TYPE_SFIXED64 | TYPE_FLOAT | TYPE_DOUBLE

datatype native_type = Integral num_type | Float32 | Float64

fun field_type :: "field_type_id \<Rightarrow> native_type" where
  "field_type TYPE_INT32 = Integral Int64"
| "field_type TYPE_SINT32 = Integral Int64"
| "field_type TYPE_UINT32 = Integral UInt64"
| "field_type TYPE_INT64 = Integral Int64"
| "field_type TYPE_SINT64 = Integral Int64"
| "field_type TYPE_UINT64 = Integral UInt64"
| "field_type TYPE_FIXED32 = Integral UInt32"
| "field_type TYPE_SFIXED32 = Integral Int32"
| "field_type TYPE_FIXED64 = Integral UInt64"
| "field_type TYPE_SFIXED64 = Integral Int64"
| "field_type TYPE_FLOAT = Float32"
| "field_type TYPE_DOUBLE = Float64"

fun is_integral :: "native_type \<Rightarrow> bool" where
  "is_integral (Integral T) = True"
| "is_integral Float32 = False"
| "is_integral Float64 = False"

text \<open>A value of the type \<open>T\<close> of a converter: an integer with its C++ type, or a
  \<open>float\<close> or \<open>double\<close>.\<close>

datatype number = Integer num_type int | Floating fp_value

text \<open>The value of the bytes that \<open>readBinary\<close> copies into a variable (the host is
  little-endian).\<close>

fun from_le_bytes :: "byte list \<Rightarrow> int" where
  "from_le_bytes [] = 0"
| "from_le_bytes (b # bs) = uint b + 256 * from_le_bytes bs"

definition as_Integer ::
  "num_type \<Rightarrow> int option \<times> SimpleReader \<Rightarrow> error + (number option \<times> SimpleReader)" where
  "as_Integer T = (\<lambda>(r, s). Inr (map_option (Integer T) r, s))"

definition as_unsigned ::
  "num_type \<Rightarrow> UInt64 option \<times> SimpleReader \<Rightarrow> error + (number option \<times> SimpleReader)" where
  "as_unsigned T = (\<lambda>(r, s). Inr (map_option (Integer T \<circ> uint) r, s))"

definition unsigned_fixed ::
  "num_type \<Rightarrow> byte list option \<times> SimpleReader \<Rightarrow> error + (number option \<times> SimpleReader)" where
  "unsigned_fixed T = (\<lambda>(r, s). Inr (map_option (Integer T \<circ> from_le_bytes) r, s))"

definition signed_fixed ::
  "num_type \<Rightarrow> nat \<Rightarrow> byte list option \<times> SimpleReader
     \<Rightarrow> error + (number option \<times> SimpleReader)" where
  "signed_fixed T bits =
     (\<lambda>(r, s). Inr (map_option (Integer T \<circ> static_cast_signed bits \<circ> from_le_bytes) r, s))"

definition floating_fixed ::
  "nat \<Rightarrow> nat \<Rightarrow> byte list option \<times> SimpleReader \<Rightarrow> error + (number option \<times> SimpleReader)" where
  "floating_fixed exponent_bits fraction_bits =
     (\<lambda>(r, s). Inr (map_option (Floating \<circ> ieee754 exponent_bits fraction_bits \<circ> from_le_bytes) r, s))"

text \<open>\<open>readField\<close>: the \<open>if constexpr\<close> chain, one branch for each pair of
  \<open>field_type_id\<close> and \<open>T\<close>.\<close>

fun readField :: "field_type_id \<Rightarrow> SimpleReader \<Rightarrow> error + (number option \<times> SimpleReader)" where
  "readField TYPE_INT32 s = andThen (readInt s) (as_Integer Int64)"
| "readField TYPE_SINT32 s = andThen (readSInt s) (as_Integer Int64)"
| "readField TYPE_UINT32 s = andThen (readUInt s) (as_unsigned UInt64)"
| "readField TYPE_INT64 s = andThen (readInt s) (as_Integer Int64)"
| "readField TYPE_SINT64 s = andThen (readSInt s) (as_Integer Int64)"
| "readField TYPE_UINT64 s = andThen (readUInt s) (as_unsigned UInt64)"
| "readField TYPE_FIXED32 s = andThen (readFixed 4 s) (unsigned_fixed UInt32)"
| "readField TYPE_SFIXED32 s = andThen (readFixed 4 s) (signed_fixed Int32 32)"
| "readField TYPE_FIXED64 s = andThen (readFixed 8 s) (unsigned_fixed UInt64)"
| "readField TYPE_SFIXED64 s = andThen (readFixed 8 s) (signed_fixed Int64 64)"
| "readField TYPE_FLOAT s = andThen (readFixed 4 s) (floating_fixed 8 23)"
| "readField TYPE_DOUBLE s = andThen (readFixed 8 s) (floating_fixed 11 52)"

text \<open>\<open>numericCast<To>(number)\<close>: \<open>From\<close> is the type of \<open>number\<close>.\<close>

definition numericCast_number :: "num_type \<Rightarrow> number \<Rightarrow> error + int" where
  "numericCast_number To number =
     (case number of
        Integer From v \<Rightarrow> numericCast To From v
      | Floating x \<Rightarrow> numericCast_Floating To x)"

definition readNumeric ::
  "field_type_id \<Rightarrow> num_type \<Rightarrow> SimpleReader \<Rightarrow> error + (int option \<times> SimpleReader)" where
  "readNumeric ft To s =
     andThen (readField ft s)
       (\<lambda>(r, s1). case r of
            None \<Rightarrow> Inr (None, s1)
          | Some number \<Rightarrow>
              andThen (numericCast_number To number) (\<lambda>v. Inr (Some v, s1)))"

type_synonym String = string

text \<open>\<open>set_of_enum_values\<close> is a \<open>std::optional\<close>: \<open>None\<close> until
  \<open>prepareSetOfEnumValues\<close> has run.\<close>

definition prepareSetOfEnumValues :: "int set option \<Rightarrow> (String \<times> int) list \<Rightarrow> int set option" where
  "prepareSetOfEnumValues set_of_enum_values name_value_pairs =
     (if set_of_enum_values \<noteq> None then set_of_enum_values
      else Some (fold (\<lambda>name_value_pair S. insert (snd name_value_pair) S) name_value_pairs {}))"

text \<open>\<open>readEnum\<close> starts with
  \<open>if constexpr (!std::is_integral_v<T>) cannotConvertType("Enum")\<close>.\<close>

definition readEnum_FromNumber ::
  "field_type_id \<Rightarrow> int set option \<Rightarrow> num_type \<Rightarrow> SimpleReader
     \<Rightarrow> error + (int option \<times> SimpleReader)" where
  "readEnum_FromNumber ft set_of_enum_values EnumType s =
     andThen (if \<not> is_integral (field_type ft) then cannotConvertType else Inr ())
       (\<lambda>u. andThen (readField ft s)
          (\<lambda>(r, s1). case r of
               None \<Rightarrow> Inr (None, s1)
             | Some number \<Rightarrow>
                 andThen (numericCast_number EnumType number)
                   (\<lambda>v. case set_of_enum_values of
                           None \<Rightarrow> Inl EMPTY_OPTIONAL_DEREFERENCE
                         | Some S \<Rightarrow> if v \<notin> S then cannotConvertValue else Inr (Some v, s1))))"

subsection \<open>ConverterFromString\<close>

definition emplace :: "('k \<rightharpoonup> 'v) \<Rightarrow> 'k \<Rightarrow> 'v \<Rightarrow> ('k \<rightharpoonup> 'v)" where
  "emplace m k v = (if m k = None then m(k \<mapsto> v) else m)"

definition toString :: "byte list \<Rightarrow> String" where
  "toString bs = map (\<lambda>b. char_of (unat b)) bs"

definition prepareEnumNameToValueMap ::
  "(String \<rightharpoonup> int) option \<Rightarrow> (String \<times> int) list \<Rightarrow> (String \<rightharpoonup> int) option" where
  "prepareEnumNameToValueMap enum_name_to_value_map name_value_pairs =
     (if enum_name_to_value_map \<noteq> None then enum_name_to_value_map
      else Some (fold (\<lambda>name_value_pair m. emplace m (fst name_value_pair) (snd name_value_pair))
                   name_value_pairs Map.empty))"

definition readEnum_FromString ::
  "(String \<rightharpoonup> int) option \<Rightarrow> num_type \<Rightarrow> SimpleReader \<Rightarrow> error + (int option \<times> SimpleReader)" where
  "readEnum_FromString enum_name_to_value_map T s =
     andThen (readStringInto s)
       (\<lambda>(r, s1). case r of
            None \<Rightarrow> Inr (None, s1)
          | Some temp_string \<Rightarrow>
              (case enum_name_to_value_map of
                 None \<Rightarrow> Inl EMPTY_OPTIONAL_DEREFERENCE
               | Some m \<Rightarrow>
                   (case m (toString temp_string) of
                      None \<Rightarrow> cannotConvertValue
                    | Some v \<Rightarrow> Inr (Some (static_cast_enum T v), s1))))"

subsection \<open>ConverterImpl<TYPE_ENUM>\<close>

text \<open>Modelled from the spec: the descriptor of an enum field (\<open>field->enum_type()\<close>,
  of the protobuf library) is its list of (name, number) pairs; \<open>FindValueByName\<close>
  gives the number of a name.\<close>

type_synonym EnumDescriptor = "(String \<times> int) list"

definition FindValueByName :: "EnumDescriptor \<Rightarrow> String \<Rightarrow> int option" where
  "FindValueByName enum_type name = map_of enum_type name"

record ConverterEnum =
  enum_type :: EnumDescriptor
  enum_pbnumber_to_name_map :: "(int \<rightharpoonup> String) option"
  enum_pbnumber_to_value_map :: "(int \<rightharpoonup> int) option"

definition prepareEnumPbNumberToNameMap :: "ConverterEnum \<Rightarrow> ConverterEnum" where
  "prepareEnumPbNumberToNameMap c =
     (if enum_pbnumber_to_name_map c \<noteq> None then c
      else c\<lparr>enum_pbnumber_to_name_map :=
               Some (fold (\<lambda>enum_value m. emplace m (snd enum_value) (fst enum_value))
                       (enum_type c) Map.empty)\<rparr>)"

definition prepareEnumPbNumberToValueMap :: "ConverterEnum \<Rightarrow> (String \<times> int) list \<Rightarrow> ConverterEnum" where
  "prepareEnumPbNumberToValueMap c name_value_pairs =
     (if enum_pbnumber_to_value_map c \<noteq> None then c
      else c\<lparr>enum_pbnumber_to_value_map :=
               Some (fold (\<lambda>name_value_pair m.
                             case FindValueByName (enum_type c) (fst name_value_pair) of
                               Some number \<Rightarrow> emplace m number (snd name_value_pair)
                             | None \<Rightarrow> m)
                       name_value_pairs Map.empty)\<rparr>)"

text \<open>\<open>readStringInto\<close> of the enum converter returns the converter (its name map
  may have been built) and the text written to \<open>str\<close>.\<close>

definition readStringInto_Enum ::
  "ConverterEnum \<Rightarrow> SimpleReader \<Rightarrow> error + (String option \<times> ConverterEnum \<times> SimpleReader)" where
  "readStringInto_Enum c0 s =
     (let c = prepareEnumPbNumberToNameMap c0
      in andThen (readInt s)
           (\<lambda>(r, s1). case r of
                None \<Rightarrow> Inr (None, c, s1)
              | Some pbnumber \<Rightarrow>
                  (case enum_pbnumber_to_name_map c of
                     None \<Rightarrow> Inl EMPTY_OPTIONAL_DEREFERENCE
                   | Some m \<Rightarrow>
                       (case m pbnumber of
                          None \<Rightarrow> cannotConvertValue
                        | Some name \<Rightarrow> Inr (Some name, c, s1)))))"


definition readEnum_Enum ::
  "ConverterEnum \<Rightarrow> num_type \<Rightarrow> SimpleReader \<Rightarrow> error + (int option \<times> SimpleReader)" where
  "readEnum_Enum c T s =
     andThen (readInt s)
       (\<lambda>(r, s1). case r of
            None \<Rightarrow> Inr (None, s1)
          | Some pbnumber \<Rightarrow>
              (case enum_pbnumber_to_value_map c of
                 None \<Rightarrow> Inl EMPTY_OPTIONAL_DEREFERENCE
               | Some m \<Rightarrow>
                   (case m pbnumber of
                      None \<Rightarrow> cannotConvertValue
                    | Some v \<Rightarrow> Inr (Some (static_cast_enum T v), s1))))"

section \<open>The dispatcher (ProtobufReader::readColumnIndex)\<close>

text \<open>
  Modelled from the spec: the schema tree (ProtobufColumnMatcher.h is not part of the
  sources).  A \<open>Field\<close> has its field number, its column index and, for a container,
  its nested message; a \<open>Message\<close> has its fields in order.  The pointers
  \<open>parent\<close> and \<open>index_in_parent\<close> of the current message are kept as the path
  \<open>parents\<close> from it up to the root: each entry is a parent message with the index of
  the container field in it.  A pointer to a field of a message is the index of the field
  in \<open>fields\<close>.
\<close>

datatype Field = Field (field_number: UInt32) (column_index: nat) (nested_message: "Message option")
  and Message = Message (fields: "Field list")

text \<open>\<open>setTraitsDataAfterMatchingColumns\<close> fills \<open>field_number_to_field_map\<close> of a
  message: the loop runs over the fields in order, and the \<open>continue\<close> of a field with
  a nested message comes before the \<open>emplace\<close>.\<close>

fun setTraitsData_loop :: "Field list \<Rightarrow> nat \<Rightarrow> (UInt32 \<rightharpoonup> nat) \<Rightarrow> (UInt32 \<rightharpoonup> nat)" where
  "setTraitsData_loop [] i m = m"
| "setTraitsData_loop (field # rest) i m =
     (if nested_message field \<noteq> None then setTraitsData_loop rest (i + 1) m
      else setTraitsData_loop rest (i + 1) (emplace m (field_number field) i))"

definition field_number_to_field_map :: "Message \<Rightarrow> (UInt32 \<rightharpoonup> nat)" where
  "field_number_to_field_map message = setTraitsData_loop (fields message) 0 Map.empty"

record ProtobufReader =
  simple_reader :: SimpleReader
  current_message :: Message
  parents :: "(Message \<times> nat) list"
  current_field_index :: nat

text \<open>The \<open>for\<close> loop of \<open>readColumnIndex\<close>: the new \<open>current_field_index\<close> and
  whether the field was found there.\<close>

function linear_advance :: "Field list \<Rightarrow> UInt32 \<Rightarrow> nat \<Rightarrow> nat \<times> bool" where
  "linear_advance fs n idx =
     (if idx < length fs
      then if field_number (fs ! idx) = n then (idx, True)
           else if n < field_number (fs ! idx) then (idx, False)
           else linear_advance fs n (idx + 1)
      else (idx, False))"
  by pat_completeness auto
termination
  by (relation "measure (\<lambda>(fs, n, idx). length fs - idx)") auto

text \<open>\<open>readColumnIndex\<close>: the \<open>while (true)\<close> loop, one unit of fuel for each turn;
  \<open>None\<close> when the fuel runs out.  The result is \<open>Some column_index\<close> for
  \<open>true\<close> and \<open>None\<close> for \<open>false\<close>.\<close>

fun readColumnIndex :: "nat \<Rightarrow> ProtobufReader \<Rightarrow> (error + (nat option \<times> ProtobufReader)) option" where
  "readColumnIndex 0 r = None"
| "readColumnIndex (Suc fuel) r =
     (case readFieldNumber (simple_reader r) of
        Inl e \<Rightarrow> Some (Inl e)
      | Inr (None, sr) \<Rightarrow>
          (case parents r of
             [] \<Rightarrow> Some (Inr (None, r\<lparr>simple_reader := sr\<rparr>))
           | (parent, index_in_parent) # up \<Rightarrow>
               (case endMessage sr of
                  Inl e \<Rightarrow> Some (Inl e)
                | Inr sr' \<Rightarrow>
                    readColumnIndex fuel
                      (r\<lparr>simple_reader := sr', current_field_index := index_in_parent,
                         current_message := parent, parents := up\<rparr>)))
      | Inr (Some n, sr) \<Rightarrow>
          (case linear_advance (Message.fields (current_message r)) n (current_field_index r) of
             (idx, found) \<Rightarrow>
               (let r1 = r\<lparr>simple_reader := sr, current_field_index := idx\<rparr>
                in case (if found then Some idx
                         else field_number_to_field_map (current_message r) n) of
                     None \<Rightarrow> readColumnIndex fuel r1
                   | Some fi \<Rightarrow>
                       (let field = Message.fields (current_message r) ! fi
                        in case nested_message field of
                             Some nested \<Rightarrow>
                               (case startMessage sr of
                                  Inl e \<Rightarrow> Some (Inl e)
                                | Inr (b, sr') \<Rightarrow>
                                    readColumnIndex fuel
                                      (r1\<lparr>simple_reader := sr', current_message := nested,
                                          parents := (current_message r, fi) # parents r,
                                          current_field_index := 0\<rparr>))
                           | None \<Rightarrow> Some (Inr (Some (column_index field), r1))))))"

text \<open>\<open>ProtobufReader::startMessage\<close> on a fresh reader over the stream \<open>rb\<close> with
  the schema \<open>root_message\<close>.\<close>

definition startMessage_reader :: "Message \<Rightarrow> ReadBuffer \<Rightarrow> error + (bool \<times> ProtobufReader)" where
  "startMessage_reader root_message rb =
     andThen (startMessage (SimpleReader_init rb))
       (\<lambda>(b, sr). Inr (b, \<lparr>simple_reader = sr, current_message = root_message,
                            parents = [], current_field_index = 0\<rparr>))"

section \<open>Notions used in the statements\<close>

text \<open>The state after \<open>n\<close> more bytes of the stream are consumed and the cursor has
  moved by \<open>c\<close>.\<close>

definition advance :: "SimpleReader \<Rightarrow> nat \<Rightarrow> UInt64 \<Rightarrow> SimpleReader" where
  "advance s n c = s\<lparr>inp := (inp s)\<lparr>pos := pos (inp s) + n\<rparr>, cursor := cursor s + c\<rparr>"

text \<open>The bytes of the stream that are not read yet.\<close>

definition unread :: "SimpleReader \<Rightarrow> byte list" where
  "unread s = drop (pos (inp s)) (working_buffer (inp s))"

text \<open>The stack of message ends, from the bottom (the root message) to the top (the
  current frame), and what it is for a list of ends not to increase.\<close>

definition message_ends :: "SimpleReader \<Rightarrow> UInt64 list" where
  "message_ends s = parent_message_ends s @ [current_message_end s]"

definition non_increasing :: "UInt64 list \<Rightarrow> bool" where
  "non_increasing ends = sorted_wrt (\<lambda>lower upper. upper \<le> lower) ends"

text \<open>What \<open>endMessage\<close> does apart from the pop: the exception, or the state with
  the popped end and the parent stack left out.\<close>

definition without_ends :: "error + SimpleReader \<Rightarrow> error + SimpleReader" where
  "without_ends = map_sum id (\<lambda>s. s\<lparr>current_message_end := REACHED_END, parent_message_ends := []\<rparr>)"

text \<open>What \<open>readField\<close> yields has the type \<open>T\<close> of the converter.\<close>

fun has_type :: "native_type \<Rightarrow> number \<Rightarrow> bool" where
  "has_type (Integral T) (Integer From n) = (From = T \<and> lowest T \<le> n \<and> n \<le> highest T)"
| "has_type Float32 (Floating x) = True"
| "has_type Float64 (Floating x) = True"
| "has_type T x = False"

text \<open>The integer that a number stands for when it is narrowed: the integer itself, or
  the integer part of a floating-point value.\<close>

fun integer_part :: "number \<Rightarrow> int option" where
  "integer_part (Integer From n) = Some n"
| "integer_part (Floating x) = truncated x"

text \<open>The canonical encoding of a varint (little-endian base 128, the high bit of a byte
  says that another byte follows), as the protobuf encoder writes it.\<close>

function encodeVarint :: "UInt64 \<Rightarrow> byte list" where
  "encodeVarint v =
     (if v < 0x80 then [ucast v]
      else (ucast (v AND 0x7F) OR 0x80) # encodeVarint (drop_bit 7 v))"
  by pat_completeness auto
termination
proof (relation "measure unat")
  fix v :: UInt64
  assume "\<not> v < 0x80"
  then have "128 \<le> unat v"
    by (simp add: word_less_nat_alt)
  moreover have "unat (drop_bit 7 v) = drop_bit 7 (unat v)"
    by (rule unat_drop_bit_eq)
  moreover have "drop_bit 7 (unat v) = unat v div 2 ^ 7"
    by (rule drop_bit_eq_div)
  ultimately have "unat (drop_bit 7 v) < unat v"
    by simp
  then show "(drop_bit 7 v, v) \<in> measure unat"
    by simp
qed simp

text \<open>The byte of a varint that has the continuation bit, as \<open>static_cast<UInt64>(c)\<close>
  sees it.\<close>

definition sext_cont :: "UInt64 \<Rightarrow> UInt64" where
  "sext_cont w = scast (ucast (w AND 0x7F) OR 0x80 :: byte)"

text \<open>The caller of a packed field calls \<open>readUInt\<close> until it returns \<open>false\<close>;
  \<open>readUInt_calls n\<close> makes at most \<open>n\<close> calls and collects the values.\<close>

fun readUInt_calls :: "nat \<Rightarrow> SimpleReader \<Rightarrow> error + (UInt64 list \<times> SimpleReader)" where
  "readUInt_calls 0 s = Inr ([], s)"
| "readUInt_calls (Suc n) s =
     andThen (readUInt s)
       (\<lambda>(r, s1). case r of
            None \<Rightarrow> Inr ([], s1)
          | Some v \<Rightarrow> andThen (readUInt_calls n s1) (\<lambda>(vs, s2). Inr (v # vs, s2)))"

section \<open>What the scanner's primitives do to the state\<close>

declare READ_HELPER.simps [simp del] IGNORE_HELPER.simps [simp del]
  ignoreGroup_loop.simps [simp del] encodeVarint.simps [simp del]
  linear_advance.simps [simp del]

lemma andThen_Inr_iff:
  "andThen m f = Inr y \<longleftrightarrow> (\<exists>x. m = Inr x \<and> f x = Inr y)"
  by (cases m) simp_all

lemma andThen_Inl_iff:
  "andThen m f = Inl e \<longleftrightarrow> m = Inl e \<or> (\<exists>x. m = Inr x \<and> f x = Inl e)"
  by (cases m) simp_all

lemma advance_frame [simp]:
  "current_message_end (advance s n c) = current_message_end s"
  "field_end (advance s n c) = field_end s"
  "parent_message_ends (advance s n c) = parent_message_ends s"
  "cursor (advance s n c) = cursor s + c"
  "pos (inp (advance s n c)) = pos (inp s) + n"
  "working_buffer (inp (advance s n c)) = working_buffer (inp s)"
  by (simp_all add: advance_def)

lemma readStrict1_Inr:
  "readStrict1 rb = Inr (c, rb') \<Longrightarrow>
     pos rb < length (working_buffer rb) \<and> c = working_buffer rb ! pos rb \<and>
     rb' = rb\<lparr>pos := pos rb + 1\<rparr>"
  by (auto simp: readStrict1_def split: if_splits)

lemma READ_HELPER_state:
  "READ_HELPER i r s = Inr (v, s') \<Longrightarrow>
     \<exists>n. 1 \<le> n \<and> i + n \<le> 10 \<and> pos (inp s) + n \<le> length (working_buffer (inp s)) \<and>
         s' = advance s n (of_nat (i + n))"
proof (induction i r s rule: READ_HELPER.induct)
  case (1 i result s)
  from "1.prems" have i10: "\<not> 10 \<le> i"
    by (subst (asm) READ_HELPER.simps) (auto simp: unknownFormat_def)
  from "1.prems" i10 obtain c rb where rd: "readStrict1 (inp s) = Inr (c, rb)"
    by (subst (asm) READ_HELPER.simps) (auto split: sum.splits)
  note rb = readStrict1_Inr [OF rd]
  let ?s1 = "s\<lparr>inp := rb\<rparr>"
  let ?r1 = "result OR push_bit (7 * i) (scast c)"
  show ?case
  proof (cases "(i < 9 \<and> c AND 0x80 = 0) \<or> (\<not> i < 9 \<and> c = 1)")
    case True
    with "1.prems" i10 rd have "s' = ?s1\<lparr>cursor := cursor ?s1 + of_nat (i + 1)\<rparr>"
      by (subst (asm) READ_HELPER.simps) (auto simp: Let_def split: if_splits)
    with rb i10 show ?thesis
      by (intro exI [of _ 1]) (auto simp: advance_def)
  next
    case False
    show ?thesis
    proof (cases "i < 9")
      case True
      with False have c: "c AND 0x80 \<noteq> 0" by simp
      let ?r2 = "if i < 8 then ?r1 AND (push_bit (7 * i) 0x80 - 1) else ?r1"
      from "1.prems" i10 rd True c have rec: "READ_HELPER (i + 1) ?r2 ?s1 = Inr (v, s')"
        by (subst (asm) READ_HELPER.simps) (simp add: Let_def)
      from "1.IH"(1) [OF i10 rd refl refl refl True c rec]
      obtain n where n: "1 \<le> n" "i + 1 + n \<le> 10"
        "pos (inp ?s1) + n \<le> length (working_buffer (inp ?s1))"
        "s' = advance ?s1 n (of_nat (i + 1 + n))"
        by blast
      with rb show ?thesis
        by (intro exI [of _ "Suc n"]) (auto simp: advance_def)
    next
      case i9: False
      with False have c: "c \<noteq> 1" by simp
      from "1.prems" i10 rd i9 c have rec: "READ_HELPER (i + 1) ?r1 ?s1 = Inr (v, s')"
        by (subst (asm) READ_HELPER.simps) (simp add: Let_def)
      from i9 i10 have "10 \<le> i + 1" by simp
      with rec show ?thesis
        by (subst (asm) READ_HELPER.simps) (simp add: unknownFormat_def)
    qed
  qed
qed

lemma readVarint_state:
  "readVarint s = Inr (v, s') \<Longrightarrow>
     \<exists>n. 1 \<le> n \<and> n \<le> 10 \<and> pos (inp s) + n \<le> length (working_buffer (inp s)) \<and>
         s' = advance s n (of_nat n)"
  unfolding readVarint_def by (drule READ_HELPER_state) simp

lemma IGNORE_HELPER_state:
  "IGNORE_HELPER i s = Inr s' \<Longrightarrow>
     \<exists>n. 1 \<le> n \<and> i + n \<le> 10 \<and> pos (inp s) + n \<le> length (working_buffer (inp s)) \<and>
         s' = advance s n (of_nat (i + n))"
proof (induction i s rule: IGNORE_HELPER.induct)
  case (1 i s)
  from "1.prems" have i10: "\<not> 10 \<le> i"
    by (subst (asm) IGNORE_HELPER.simps) (auto simp: unknownFormat_def)
  from "1.prems" i10 obtain c rb where rd: "readStrict1 (inp s) = Inr (c, rb)"
    by (subst (asm) IGNORE_HELPER.simps) (auto split: sum.splits)
  note rb = readStrict1_Inr [OF rd]
  let ?s1 = "s\<lparr>inp := rb\<rparr>"
  show ?case
  proof (cases "(i < 9 \<and> c AND 0x80 = 0) \<or> (\<not> i < 9 \<and> c = 1)")
    case True
    with "1.prems" i10 rd have "s' = ?s1\<lparr>cursor := cursor ?s1 + of_nat (i + 1)\<rparr>"
      by (subst (asm) IGNORE_HELPER.simps) (auto simp: Let_def split: if_splits)
    with rb i10 show ?thesis
      by (intro exI [of _ 1]) (auto simp: advance_def)
  next
    case False
    show ?thesis
    proof (cases "i < 9")
      case True
      with False have c: "c AND 0x80 \<noteq> 0" by simp
      from "1.prems" i10 rd True c have rec: "IGNORE_HELPER (i + 1) ?s1 = Inr s'"
        by (subst (asm) IGNORE_HELPER.simps) (simp add: Let_def)
      from "1.IH"(1) [OF i10 rd refl refl True c rec]
      obtain n where n: "1 \<le> n" "i + 1 + n \<le> 10"
        "pos (inp ?s1) + n \<le> length (working_buffer (inp ?s1))"
        "s' = advance ?s1 n (of_nat (i + 1 + n))"
        by blast
      with rb show ?thesis
        by (intro exI [of _ "Suc n"]) (auto simp: advance_def)
    next
      case i9: False
      with False have c: "c \<noteq> 1" by simp
      from "1.prems" i10 rd i9 c have rec: "IGNORE_HELPER (i + 1) ?s1 = Inr s'"
        by (subst (asm) IGNORE_HELPER.simps) (simp add: Let_def)
      from i9 i10 have "10 \<le> i + 1" by simp
      with rec show ?thesis
        by (subst (asm) IGNORE_HELPER.simps) (simp add: unknownFormat_def)
    qed
  qed
qed

lemma ignore_state:
  "ignore s k = Inr s' \<Longrightarrow>
     pos (inp s) + unat k \<le> length (working_buffer (inp s)) \<and> s' = advance s (unat k) k"
  by (auto simp: ignore_def ignore_in_def advance_def andThen_Inr_iff split: if_splits)

text \<open>\<open>ignoreGroup\<close> returns only from the \<open>GROUP_END\<close> case of its first turn: every
  other path through the loop body ends in \<open>unknownFormat()\<close>.\<close>

lemma ignoreGroup_Inr:
  "ignoreGroup s = Inr s' \<Longrightarrow>
     \<exists>v. readVarint s = Inr (v, s') \<and> to_WireType (v AND 0x07) = Some GROUP_END"
  unfolding ignoreGroup_def
  by (subst (asm) ignoreGroup_loop.simps)
     (auto simp: ignoreGroup_switch_def unknownFormat_def andThen_Inr_iff
           split: sum.splits option.splits WireType.splits switch_exit.splits if_splits prod.splits)

lemma ignoreGroup_state:
  "ignoreGroup s = Inr s' \<Longrightarrow> \<exists>n. s' = advance s n (of_nat n)"
  by (drule ignoreGroup_Inr) (auto dest: readVarint_state)

lemma moveCursorBackward_state:
  "moveCursorBackward s k = Inr s' \<Longrightarrow>
     unat k \<le> pos (inp s) \<and>
     s' = s\<lparr>inp := (inp s)\<lparr>pos := pos (inp s) - unat k\<rparr>, cursor := cursor s - k\<rparr>"
  by (auto simp: moveCursorBackward_def offset_def unknownFormat_def split: if_splits)


lemma endMessage_root_closed:
  assumes "endMessage s = Inr s'" and "parent_message_ends s = []"
  shows "parent_message_ends s' = [] \<and> current_message_end s' = REACHED_END \<and>
         field_end s' = REACHED_END"
proof (cases "current_message_end s = REACHED_END")
  case True
  with assms show ?thesis
    by (simp add: endMessage_def Let_def) auto
next
  case active: False
  show ?thesis
  proof (cases "current_message_end s = END_OF_GROUP")
    case True
    with assms active obtain s1 where "ignoreGroup s = Inr s1"
      and "s' = s1\<lparr>current_message_end := REACHED_END, field_end := REACHED_END\<rparr>"
      by (cases "ignoreGroup s") (auto simp: endMessage_def Let_def dest!: ignoreGroup_state)
    with assms(2) show ?thesis
      by (auto dest!: ignoreGroup_state)
  next
    case no_group: False
    show ?thesis
    proof (cases "cursor s < current_message_end s")
      case True
      with assms active no_group obtain s1
        where "ignore s (current_message_end s - cursor s) = Inr s1"
          and "s' = s1\<lparr>current_message_end := REACHED_END, field_end := REACHED_END\<rparr>"
        by (cases "ignore s (current_message_end s - cursor s)")
           (auto simp: endMessage_def Let_def dest!: ignore_state)
      with assms(2) show ?thesis
        by (auto dest!: ignore_state)
    next
      case not_before: False
      show ?thesis
      proof (cases "current_message_end s < cursor s")
        case True
        with assms active no_group not_before obtain s1
          where "moveCursorBackward s (cursor s - current_message_end s) = Inr s1"
            and "s' = s1\<lparr>current_message_end := REACHED_END, field_end := REACHED_END\<rparr>"
          by (cases "moveCursorBackward s (cursor s - current_message_end s)")
             (auto simp: endMessage_def Let_def dest!: moveCursorBackward_state)
        with assms(2) show ?thesis
          by (auto dest!: moveCursorBackward_state)
      next
        case False
        with assms active no_group not_before show ?thesis
          by (simp add: endMessage_def Let_def) auto
      qed
    qed
  qed
qed

text \<open>
  C8.  After an \<open>endMessage\<close> that closed the root frame (the parent stack is empty)
  without an exception, \<open>endRootMessage\<close> returns the state it was given: the cursor,
  the stream position, \<open>current_message_end\<close>, \<open>field_end\<close> and the parent stack are
  all unchanged.
\<close>

theorem endRootMessage_after_endMessage:
  assumes "parent_message_ends s = []" and "endMessage s = Inr s'"
  shows "endRootMessage s' = Inr s'"
proof -
  from endMessage_root_closed [OF assms(2,1)]
  have "parent_message_ends s' = []" "current_message_end s' = REACHED_END"
    "field_end s' = REACHED_END"
    by simp_all
  then show ?thesis
    by (simp add: endRootMessage_def)
qed


theorem endRootMessage_after_endMessage_witness:
  "parent_message_ends
     \<lparr>inp = \<lparr>working_buffer = [2, 8, 42], pos = 1\<rparr>, cursor = 2, current_message_end = 4,
      field_end = 0, parent_message_ends = []\<rparr> = [] \<and>
   endMessage
     \<lparr>inp = \<lparr>working_buffer = [2, 8, 42], pos = 1\<rparr>, cursor = 2, current_message_end = 4,
      field_end = 0, parent_message_ends = []\<rparr>
     = Inr \<lparr>inp = \<lparr>working_buffer = [2, 8, 42], pos = 3\<rparr>, cursor = 4, current_message_end = 0,
            field_end = 0, parent_message_ends = []\<rparr> \<and>
   endRootMessage
     \<lparr>inp = \<lparr>working_buffer = [2, 8, 42], pos = 3\<rparr>, cursor = 4, current_message_end = 0,
      field_end = 0, parent_message_ends = []\<rparr>
     = Inr \<lparr>inp = \<lparr>working_buffer = [2, 8, 42], pos = 3\<rparr>, cursor = 4, current_message_end = 0,
            field_end = 0, parent_message_ends = []\<rparr>"
proof -
  let ?s = "\<lparr>inp = \<lparr>working_buffer = [2, 8, 42 :: byte], pos = 1\<rparr>, cursor = 2,
             current_message_end = 4, field_end = 0, parent_message_ends = []\<rparr>"
  let ?s' = "\<lparr>inp = \<lparr>working_buffer = [2, 8, 42 :: byte], pos = 3\<rparr>, cursor = 4,
              current_message_end = 0, field_end = 0, parent_message_ends = []\<rparr>"
  have closed: "endMessage ?s = Inr ?s'"
    by (simp add: endMessage_def ignore_def ignore_in_def REACHED_END_def END_OF_GROUP_def)
  have root: "parent_message_ends ?s = []"
    by simp
  from endRootMessage_after_endMessage [OF root closed] closed root show ?thesis
    by simp
qed

section \<open>Varints\<close>

lemma unat_drop_bit_7: "unat (drop_bit 7 (w :: 64 word)) = unat w div 128"
proof -
  have "unat (drop_bit 7 w) = drop_bit 7 (unat w)"
    by (rule unat_drop_bit_eq)
  also have "\<dots> = unat w div 2 ^ 7"
    by (rule drop_bit_eq_div)
  finally show ?thesis
    by simp
qed

lemma lt_0x80_iff: "(w :: 64 word) < 0x80 \<longleftrightarrow> drop_bit 7 w = 0"
proof -
  note unat_drop_bit_7 [of w]
  moreover have "unat w div 128 = 0 \<longleftrightarrow> unat w < 128"
    by (simp add: div_eq_0_iff)
  ultimately have "drop_bit 7 w = 0 \<longleftrightarrow> unat w < 128"
    by (simp add: unat_eq_0 [symmetric] del: unat_eq_0)
  then show ?thesis
    by (simp add: word_less_nat_alt)
qed

lemma small_bits: "(w :: 64 word) < 0x80 \<Longrightarrow> bit w n \<Longrightarrow> n < 7"
  by (metis lt_0x80_iff take_bit_eq_self_iff_drop_bit_eq_0 bit_take_bit_iff)

lemma bit_0x80_int: "bit (0x80 :: int) n \<longleftrightarrow> n = 7"
proof -
  have "(0x80 :: int) = 2 ^ 7" by simp
  then show ?thesis by (simp only: bit_exp_iff) (auto simp: possible_bit_def)
qed

lemma bit_0x7F_int: "bit (0x7F :: int) n \<longleftrightarrow> n < 7"
proof -
  have "(0x7F :: int) = mask 7" by (simp add: mask_eq_exp_minus_1)
  then show ?thesis by (simp only: bit_mask_iff) (auto simp: possible_bit_def)
qed

lemma scast_last_byte: "(w :: 64 word) < 0x80 \<Longrightarrow> (scast (ucast w :: 8 word) :: 64 word) = w"
  by (rule bit_word_eqI) (auto simp: bit_simps dest: small_bits)

lemma last_byte_high_bit: "(w :: 64 word) < 0x80 \<Longrightarrow> (ucast w :: 8 word) AND 0x80 = 0"
  by (rule bit_word_eqI) (auto simp: bit_simps bit_0x80_int dest: small_bits)

lemma cont_byte_high_bit: "(ucast ((w :: 64 word) AND 0x7F) OR 0x80 :: 8 word) AND 0x80 \<noteq> 0"
proof
  assume "(ucast (w AND 0x7F) OR 0x80 :: 8 word) AND 0x80 = 0"
  then have "\<not> bit ((ucast (w AND 0x7F) OR 0x80 :: 8 word) AND 0x80) 7"
    by simp
  then show False
    by (simp add: bit_simps bit_0x80_int)
qed

lemma bit_sext_cont: "bit (sext_cont w) n \<longleftrightarrow> n < 64 \<and> (n < 7 \<longrightarrow> bit w n)"
  unfolding sext_cont_def
  by (auto simp add: bit_simps bit_0x80_int bit_0x7F_int min_def)

lemma mask_of_helper: "push_bit n (0x80 :: 64 word) - 1 = mask (n + 7)"
proof -
  have "(0x80 :: 64 word) = 2 ^ 7" by simp
  then have "push_bit n (0x80 :: 64 word) = 2 ^ (n + 7)"
    by (simp only: push_bit_eq_mult power_add mult.commute)
  then show ?thesis
    by (simp only: mask_eq_exp_minus_1)
qed

lemma join_low_high:
  "r = take_bit n v \<or> r = v \<Longrightarrow> r OR push_bit n (drop_bit n v) = (v :: 64 word)"
  by (rule bit_word_eqI) (auto simp: bit_simps)

lemma cont_step_masked:
  "(take_bit n v OR push_bit n (sext_cont (drop_bit n v))) AND (push_bit n 0x80 - 1)
     = take_bit (n + 7) v"
  unfolding mask_of_helper
  by (rule bit_word_eqI) (auto simp: bit_simps bit_sext_cont)

lemma top_bit:
  assumes "n + 8 = 64" "\<not> drop_bit n (v :: 64 word) < 0x80"
  shows "bit v (n + 7)"
proof -
  from assms have "drop_bit (n + 7) v \<noteq> 0"
    by (simp add: lt_0x80_iff add.commute)
  then obtain m where "bit (drop_bit (n + 7) v) m"
    by (auto simp: bit_eq_iff)
  then have "bit v (n + 7 + m)" "n + 7 + m < 64"
    by (auto simp: bit_simps dest: bit_imp_le_length)
  with assms(1) show "bit v (n + 7)"
    by (cases m) auto
qed

lemma cont_step_8:
  assumes "n + 8 = 64" "\<not> drop_bit n (v :: 64 word) < 0x80"
  shows "take_bit n v OR push_bit n (sext_cont (drop_bit n v)) = v"
proof (rule bit_word_eqI)
  fix m assume "m < LENGTH(64)"
  with assms(1) have "m < n + 7 \<or> m = n + 7" by auto
  with top_bit [OF assms] assms(1)
  show "bit (take_bit n v OR push_bit n (sext_cont (drop_bit n v))) m \<longleftrightarrow> bit v m"
    by (auto simp: bit_simps bit_sext_cont)
qed

lemma tenth_byte:
  assumes "drop_bit 63 (v :: 64 word) \<noteq> 0"
  shows "drop_bit 63 v = 1"
proof (rule bit_word_eqI)
  fix m assume "m < LENGTH(64)"
  from assms obtain k where k: "bit (drop_bit 63 v) k"
    by (auto simp: bit_eq_iff)
  then have "63 + k < 64" "bit v (63 + k)"
    by (auto simp: bit_simps dest: bit_imp_le_length)
  then have "bit v 63" by (cases k) auto
  then show "bit (drop_bit 63 v) m \<longleftrightarrow> bit (1 :: 64 word) m"
    by (cases m) (auto simp: bit_simps dest: bit_imp_le_length)
qed



lemma unread_ConsD:
  assumes "unread s = b # bs"
  shows "readStrict1 (inp s) = Inr (b, (inp s)\<lparr>pos := pos (inp s) + 1\<rparr>)"
    and "unread (s\<lparr>inp := (inp s)\<lparr>pos := pos (inp s) + 1\<rparr>\<rparr>) = bs"
proof -
  from assms have d: "drop (pos (inp s)) (working_buffer (inp s)) = b # bs"
    by (simp add: unread_def)
  then have lt: "pos (inp s) < length (working_buffer (inp s))"
    by (cases "pos (inp s) < length (working_buffer (inp s))") simp_all
  from d Cons_nth_drop_Suc [OF lt]
  have "working_buffer (inp s) ! pos (inp s) = b" "drop (Suc (pos (inp s))) (working_buffer (inp s)) = bs"
    by simp_all
  with lt show "readStrict1 (inp s) = Inr (b, (inp s)\<lparr>pos := pos (inp s) + 1\<rparr>)"
    and "unread (s\<lparr>inp := (inp s)\<lparr>pos := pos (inp s) + 1\<rparr>\<rparr>) = bs"
    by (simp_all add: readStrict1_def unread_def)
qed

lemma unread_advance: "unread (advance s n c) = drop n (unread s)"
  by (simp add: unread_def advance_def add.commute)

lemma READ_HELPER_encodeVarint:
  assumes "i \<le> 9"
    and "unread s = encodeVarint (drop_bit (7 * i) v) @ rest"
    and "0 < i \<Longrightarrow> drop_bit (7 * i) v \<noteq> 0"
    and "r = (if i \<le> 8 then take_bit (7 * i) v else v)"
  shows "READ_HELPER i r s =
           Inr (v, advance s (length (encodeVarint (drop_bit (7 * i) v)))
                     (of_nat (i + length (encodeVarint (drop_bit (7 * i) v)))))"
  using assms
proof (induction k \<equiv> "9 - i" arbitrary: i r s)
  case 0
  then have i: "i = 9" by simp
  with "0.prems"(3) have w: "drop_bit 63 v = 1"
    by (simp add: tenth_byte)
  then have enc: "encodeVarint (drop_bit (7 * i) v) = [1]"
    using i by (simp add: encodeVarint.simps)
  from "0.prems"(2) have rd: "readStrict1 (inp s) = Inr (1, (inp s)\<lparr>pos := pos (inp s) + 1\<rparr>)"
    unfolding enc by (intro unread_ConsD(1)) simp
  from "0.prems"(4) i have r: "r = v" by simp
  have "v OR push_bit 63 (drop_bit 63 v) = v"
    by (rule join_low_high) simp
  with w have res: "v OR 9223372036854775808 = v" by simp
  show ?case
    unfolding enc
    by (subst READ_HELPER.simps) (simp add: i rd r res advance_def)
next
  case (Suc k)
  then have i: "i \<le> 8" by simp
  let ?w = "drop_bit (7 * i) v"
  from Suc.prems(4) i have r: "r = take_bit (7 * i) v" by simp
  show ?case
  proof (cases "?w < 0x80")
    case True
    then have enc: "encodeVarint ?w = [ucast ?w]"
      by (simp add: encodeVarint.simps)
    from Suc.prems(2) have rd: "readStrict1 (inp s) = Inr (ucast ?w, (inp s)\<lparr>pos := pos (inp s) + 1\<rparr>)"
      unfolding enc by (intro unread_ConsD(1)) simp
    have res: "r OR push_bit (7 * i) (scast (ucast ?w :: byte)) = v"
      unfolding scast_last_byte [OF True] using r by (intro join_low_high) simp
    from i show ?thesis
      unfolding enc
      by (subst READ_HELPER.simps)
         (simp add: rd res last_byte_high_bit [OF True] advance_def del: push_bit_and)
  next
    case False
    let ?c = "ucast (?w AND 0x7F) OR 0x80 :: byte"
    let ?s1 = "s\<lparr>inp := (inp s)\<lparr>pos := pos (inp s) + 1\<rparr>\<rparr>"
    let ?r2 = "if i < 8 then (r OR push_bit (7 * i) (scast ?c)) AND (push_bit (7 * i) 0x80 - 1)
               else r OR push_bit (7 * i) (scast ?c)"
    from False have enc: "encodeVarint ?w = ?c # encodeVarint (drop_bit 7 ?w)"
      by (subst encodeVarint.simps) simp
    have dd: "drop_bit 7 ?w = drop_bit (7 * (i + 1)) v"
      by (simp add: drop_bit_drop_bit add.commute)
    from Suc.prems(2) have u: "unread s = ?c # (encodeVarint (drop_bit (7 * (i + 1)) v) @ rest)"
      unfolding enc dd by simp
    note rd = unread_ConsD(1) [OF u] and rest = unread_ConsD(2) [OF u]
    have nz: "drop_bit (7 * (i + 1)) v \<noteq> 0"
      using False unfolding dd [symmetric] by (simp add: lt_0x80_iff)
    have r2: "?r2 = (if i + 1 \<le> 8 then take_bit (7 * (i + 1)) v else v)"
    proof (cases "i < 8")
      case True
      then show ?thesis
        using cont_step_masked [of "7 * i" v]
        by (simp add: r sext_cont_def add.commute)
    next
      case i8: False
      with i have "7 * i + 8 = 64" by simp
      from cont_step_8 [OF this False] i8 show ?thesis
        by (simp add: r sext_cont_def)
    qed
    from Suc.hyps(2) have k: "k = 9 - (i + 1)" by simp
    from i have i1: "i + 1 \<le> 9" by simp
    note IH = Suc.hyps(1) [OF k i1 rest nz r2]
    from i have step: "READ_HELPER i r s = READ_HELPER (i + 1) ?r2 ?s1"
      by (subst READ_HELPER.simps) (simp add: rd cont_byte_high_bit Let_def del: push_bit_and)
    show ?thesis
      unfolding step IH enc dd by (simp add: advance_def)
  qed
qed

lemma readVarint_encodeVarint:
  assumes "unread s = encodeVarint v @ rest"
  shows "readVarint s =
           Inr (v, advance s (length (encodeVarint v)) (of_nat (length (encodeVarint v))))"
  using READ_HELPER_encodeVarint [of 0 s v rest 0] assms
  by (simp add: readVarint_def)

lemma length_encodeVarint: "1 \<le> length (encodeVarint v) \<and> length (encodeVarint v) \<le> 10"
proof -
  let ?s = "SimpleReader_init \<lparr>working_buffer = encodeVarint v, pos = 0\<rparr>"
  have "unread ?s = encodeVarint v @ []"
    by (simp add: unread_def SimpleReader_init_def)
  from readVarint_encodeVarint [OF this] obtain n
    where "1 \<le> n" "n \<le> 10"
      and "advance ?s (length (encodeVarint v)) (of_nat (length (encodeVarint v))) = advance ?s n (of_nat n)"
    by (auto dest!: readVarint_state)
  from this(3) have "pos (inp (advance ?s (length (encodeVarint v)) (of_nat (length (encodeVarint v)))))
      = pos (inp (advance ?s n (of_nat n)))"
    by simp
  then have "length (encodeVarint v) = n"
    by (simp add: SimpleReader_init_def)
  with \<open>1 \<le> n\<close> \<open>n \<le> 10\<close> show ?thesis by simp
qed

lemma READ_HELPER_bad_tenth:
  assumes "unread s = cs @ tenth # rest" and "length cs = 9 - i" and "i \<le> 9"
    and "\<forall>c\<in>set cs. c AND 0x80 \<noteq> 0" and "tenth \<noteq> 1"
  shows "READ_HELPER i r s = Inl UNKNOWN_PROTOBUF_FORMAT"
  using assms
proof (induction cs arbitrary: i r s)
  case Nil
  then have i: "i = 9" and u: "unread s = tenth # rest" by simp_all
  have "READ_HELPER 10 x t = Inl UNKNOWN_PROTOBUF_FORMAT" for x t
    by (subst READ_HELPER.simps) (simp add: unknownFormat_def)
  with Nil.prems(5) show ?case
    unfolding i by (subst READ_HELPER.simps) (simp add: unread_ConsD(1) [OF u])
next
  case (Cons c cs)
  then have i: "i < 9" and u: "unread s = c # (cs @ tenth # rest)" and c: "c AND 0x80 \<noteq> 0"
    by simp_all
  let ?s1 = "s\<lparr>inp := (inp s)\<lparr>pos := pos (inp s) + 1\<rparr>\<rparr>"
  from Cons.prems have "length cs = 9 - (i + 1)" "i + 1 \<le> 9" "\<forall>c\<in>set cs. c AND 0x80 \<noteq> 0"
    by simp_all
  note IH = Cons.IH [OF unread_ConsD(2) [OF u] this Cons.prems(5)]
  let ?r2 = "if i < 8 then (r OR push_bit (7 * i) (scast c)) AND (push_bit (7 * i) 0x80 - 1)
             else r OR push_bit (7 * i) (scast c)"
  from i c have step: "READ_HELPER i r s = READ_HELPER (i + 1) ?r2 ?s1"
    by (subst READ_HELPER.simps) (simp add: unread_ConsD(1) [OF u] Let_def del: push_bit_and)
  show ?case
    unfolding step by (rule IH)
qed

text \<open>
  C5.  A successful \<open>readVarint\<close> consumes between 1 and 10 bytes (stream position and
  cursor move by the same number, nothing else changes).  On the canonical encoding of
  any 64-bit value it returns that value and consumes exactly the bytes of the encoding,
  which are between 1 and 10.  When nine bytes with the continuation bit are followed by
  a tenth byte other than 0x01, it raises UnknownFormat.
\<close>

theorem readVarint_canonical:
  "(readVarint s = Inr (v, s') \<longrightarrow> (\<exists>n. 1 \<le> n \<and> n \<le> 10 \<and> s' = advance s n (of_nat n))) \<and>
   (unread s = encodeVarint w @ rest \<longrightarrow>
      readVarint s = Inr (w, advance s (length (encodeVarint w)) (of_nat (length (encodeVarint w))))
      \<and> 1 \<le> length (encodeVarint w) \<and> length (encodeVarint w) \<le> 10) \<and>
   (unread t = nine @ tenth # rest' \<and> length nine = 9 \<and> (\<forall>c\<in>set nine. c AND 0x80 \<noteq> 0)
      \<and> tenth \<noteq> 1 \<longrightarrow> readVarint t = Inl UNKNOWN_PROTOBUF_FORMAT)"
proof (intro conjI impI)
  assume "readVarint s = Inr (v, s')"
  then show "\<exists>n. 1 \<le> n \<and> n \<le> 10 \<and> s' = advance s n (of_nat n)"
    by (auto dest!: readVarint_state)
next
  assume "unread s = encodeVarint w @ rest"
  then show "readVarint s = Inr (w, advance s (length (encodeVarint w)) (of_nat (length (encodeVarint w))))"
    by (rule readVarint_encodeVarint)
next
  show "1 \<le> length (encodeVarint w)" "length (encodeVarint w) \<le> 10"
    using length_encodeVarint [of w] by simp_all
next
  assume "unread t = nine @ tenth # rest' \<and> length nine = 9 \<and> (\<forall>c\<in>set nine. c AND 0x80 \<noteq> 0)
      \<and> tenth \<noteq> 1"
  then show "readVarint t = Inl UNKNOWN_PROTOBUF_FORMAT"
    unfolding readVarint_def by (intro READ_HELPER_bad_tenth [of t nine tenth rest']) simp_all
qed

theorem readVarint_canonical_witness:
  "readVarint (SimpleReader_init \<lparr>working_buffer = [0xAC, 0x02, 0x07], pos = 0\<rparr>)
     = Inr (300, advance (SimpleReader_init \<lparr>working_buffer = [0xAC, 0x02, 0x07], pos = 0\<rparr>) 2 2) \<and>
   encodeVarint 300 = [0xAC, 0x02] \<and>
   readVarint (SimpleReader_init
      \<lparr>working_buffer = [0xFF, 0xFF, 0xFF, 0xFF, 0xFF, 0xFF, 0xFF, 0xFF, 0xFF, 0x02], pos = 0\<rparr>)
     = Inl UNKNOWN_PROTOBUF_FORMAT"
proof -
  let ?s = "SimpleReader_init \<lparr>working_buffer = [0xAC, 0x02, 0x07], pos = 0\<rparr>"
  let ?t = "SimpleReader_init
      \<lparr>working_buffer = [0xFF, 0xFF, 0xFF, 0xFF, 0xFF, 0xFF, 0xFF, 0xFF, 0xFF, 0x02], pos = 0\<rparr>"
  have enc: "encodeVarint 300 = [0xAC, 0x02]"
    by (simp add: encodeVarint.simps)
  have s: "unread ?s = encodeVarint 300 @ [0x07]"
    by (simp add: enc unread_def SimpleReader_init_def)
  have t: "unread ?t = [0xFF, 0xFF, 0xFF, 0xFF, 0xFF, 0xFF, 0xFF, 0xFF, 0xFF] @ 0x02 # [] \<and>
           length [0xFF, 0xFF, 0xFF, 0xFF, 0xFF, 0xFF, 0xFF, 0xFF, 0xFF :: byte] = 9 \<and>
           (\<forall>c\<in>set [0xFF, 0xFF, 0xFF, 0xFF, 0xFF, 0xFF, 0xFF, 0xFF, 0xFF :: byte]. c AND 0x80 \<noteq> 0) \<and>
           (0x02 :: byte) \<noteq> 1"
    by (simp add: unread_def SimpleReader_init_def)
  from readVarint_canonical [of ?s _ _ 300 "[0x07]" ?t
      "[0xFF, 0xFF, 0xFF, 0xFF, 0xFF, 0xFF, 0xFF, 0xFF, 0xFF]" "0x02" "[]"] s t enc
  show ?thesis
    by simp
qed

section \<open>Repeated reads of one field\<close>

lemma advance_0 [simp]: "advance s 0 0 = s"
  by (simp add: advance_def)

lemma advance_advance [simp]: "advance (advance s n c) m d = advance s (n + m) (c + d)"
  by (simp add: advance_def add.assoc)

lemma readUInt_exhausted:
  "field_end s \<le> cursor s \<Longrightarrow> readUInt s = Inr (None, s\<lparr>field_end := REACHED_END\<rparr>)"
  by (simp add: readUInt_def)

lemma readUInt_step:
  assumes "cursor s < field_end s"
  shows "readUInt s =
           andThen (readVarint s)
             (\<lambda>(v, s1). Inr (Some v,
                if field_end s = END_OF_VARINT \<or> field_end s \<le> cursor s1
                then s1\<lparr>field_end := REACHED_END\<rparr> else s1))"
proof (cases "readVarint s")
  case (Inl e)
  with assms show ?thesis
    by (simp add: readUInt_def)
next
  case (Inr p)
  obtain v s1 where p: "p = (v, s1)" by (cases p)
  with Inr have "field_end s1 = field_end s"
    by (auto dest!: readVarint_state)
  with assms Inr p show ?thesis
    by (simp add: readUInt_def)
qed

lemma concat_encodeVarint_Nil: "concat (map encodeVarint vs) = [] \<longleftrightarrow> vs = []"
  using length_encodeVarint by (cases vs) (auto simp: Suc_le_eq)

lemma readUInt_calls_packed:
  assumes "unread s = concat (map encodeVarint vs) @ rest"
    and "unat (cursor s) + length (concat (map encodeVarint vs)) < 2 ^ 64 - 1"
    and "field_end s = cursor s + of_nat (length (concat (map encodeVarint vs)))"
  shows "readUInt_calls (Suc (length vs)) s =
           Inr (vs, (advance s (length (concat (map encodeVarint vs)))
                       (of_nat (length (concat (map encodeVarint vs)))))\<lparr>field_end := REACHED_END\<rparr>)"
  using assms
proof (induction vs arbitrary: s)
  case Nil
  then show ?case
    by (simp add: readUInt_exhausted)
next
  case (Cons v vs)
  let ?l = "length (encodeVarint v)"
  let ?L = "length (concat (map encodeVarint vs))"
  let ?s1 = "advance s ?l (of_nat ?l)"
  from length_encodeVarint [of v] have l: "1 \<le> ?l" "?l \<le> 10" by simp_all
  from Cons.prems(2) have bound: "unat (cursor s) + ?l + ?L < 2 ^ 64 - 1"
    by simp
  have fe: "field_end s = cursor s + of_nat (?l + ?L)"
    using Cons.prems(3) by simp
  from bound have un_fe: "unat (field_end s) = unat (cursor s) + ?l + ?L"
    unfolding fe by (simp add: unat_word_ariths unat_of_nat)
  from bound have un_c1: "unat (cursor ?s1) = unat (cursor s) + ?l"
    by (simp add: unat_word_ariths unat_of_nat)
  from un_fe l have "unat (cursor s) < unat (field_end s)"
    by arith
  then have lt: "cursor s < field_end s"
    by (simp only: word_less_nat_alt)
  have "unat END_OF_VARINT = 2 ^ 64 - 1"
    by (simp add: END_OF_VARINT_def unsigned_minus_1_eq_mask mask_eq_exp_minus_1)
  with un_fe bound have nv: "field_end s \<noteq> END_OF_VARINT"
    by auto
  from Cons.prems(1) have "unread s = encodeVarint v @ (concat (map encodeVarint vs) @ rest)"
    by simp
  note rv = readVarint_encodeVarint [OF this]
  have rest1: "unread ?s1 = concat (map encodeVarint vs) @ rest"
    using Cons.prems(1) by (simp add: unread_advance)
  show ?case
  proof (cases "vs = []")
    case True
    then have "unat (field_end s) \<le> unat (cursor ?s1)"
      using un_fe un_c1 by simp
    then have "field_end s \<le> cursor ?s1"
      by (simp only: word_le_nat_alt)
    with True lt nv rv show ?thesis
      by (simp add: readUInt_step readUInt_exhausted REACHED_END_def)
  next
    case False
    then have "0 < ?L"
      using concat_encodeVarint_Nil [of vs] by simp
    then have "\<not> unat (field_end s) \<le> unat (cursor ?s1)"
      using un_fe un_c1 by arith
    then have more: "\<not> field_end s \<le> cursor ?s1"
      by (simp only: word_le_nat_alt not_False_eq_True)
    have "field_end ?s1 = cursor ?s1 + of_nat ?L"
      using fe by simp
    moreover have "unat (cursor ?s1) + ?L < 2 ^ 64 - 1"
      using un_c1 bound by simp
    ultimately have IH: "readUInt_calls (Suc (length vs)) ?s1 =
        Inr (vs, (advance ?s1 ?L (of_nat ?L))\<lparr>field_end := REACHED_END\<rparr>)"
      using Cons.IH [OF rest1] by simp
    have "readUInt s = Inr (Some v, ?s1)"
      using lt nv rv more by (simp add: readUInt_step)
    with IH show ?thesis
      by simp
  qed
qed

text \<open>
  C9.  While the field has a concrete end and the cursor is before it, a call of
  \<open>readUInt\<close> decodes one varint and returns it, and it marks the field consumed
  (\<open>field_end = REACHED_END\<close>) exactly when the cursor has then reached or passed
  \<open>field_end\<close>; once the cursor is at or past \<open>field_end\<close> it returns \<open>false\<close>.
  So on a packed payload holding the canonical encodings of \<open>vs\<close>, calls of
  \<open>readUInt\<close> return the elements of \<open>vs\<close> one by one and then \<open>false\<close>, with the
  whole payload consumed.  For a VARINT field (\<open>field_end = END_OF_VARINT\<close>) the first
  call returns the value and the second returns \<open>false\<close>.
\<close>

theorem readUInt_one_value_per_call:
  "(cursor s < field_end s \<and> field_end s \<noteq> END_OF_VARINT \<longrightarrow>
      readUInt s =
        andThen (readVarint s)
          (\<lambda>(v, s1). Inr (Some v, if field_end s \<le> cursor s1
                                   then s1\<lparr>field_end := REACHED_END\<rparr> else s1))) \<and>
   (field_end q \<le> cursor q \<longrightarrow> readUInt q = Inr (None, q\<lparr>field_end := REACHED_END\<rparr>)) \<and>
   (unread p = concat (map encodeVarint vs) @ rest \<and>
    unat (cursor p) + length (concat (map encodeVarint vs)) < 2 ^ 64 - 1 \<and>
    field_end p = cursor p + of_nat (length (concat (map encodeVarint vs))) \<longrightarrow>
      readUInt_calls (Suc (length vs)) p =
        Inr (vs, (advance p (length (concat (map encodeVarint vs)))
                    (of_nat (length (concat (map encodeVarint vs)))))\<lparr>field_end := REACHED_END\<rparr>)) \<and>
   (field_end t = END_OF_VARINT \<and> cursor t < END_OF_VARINT \<and> readVarint t = Inr (x, t1) \<longrightarrow>
      readUInt t = Inr (Some x, t1\<lparr>field_end := REACHED_END\<rparr>) \<and>
      readUInt (t1\<lparr>field_end := REACHED_END\<rparr>) = Inr (None, t1\<lparr>field_end := REACHED_END\<rparr>))"
proof (intro conjI impI)
  assume "cursor s < field_end s \<and> field_end s \<noteq> END_OF_VARINT"
  then show "readUInt s =
        andThen (readVarint s)
          (\<lambda>(v, s1). Inr (Some v, if field_end s \<le> cursor s1
                                   then s1\<lparr>field_end := REACHED_END\<rparr> else s1))"
    by (simp add: readUInt_step)
next
  assume "field_end q \<le> cursor q"
  then show "readUInt q = Inr (None, q\<lparr>field_end := REACHED_END\<rparr>)"
    by (rule readUInt_exhausted)
next
  assume "unread p = concat (map encodeVarint vs) @ rest \<and>
    unat (cursor p) + length (concat (map encodeVarint vs)) < 2 ^ 64 - 1 \<and>
    field_end p = cursor p + of_nat (length (concat (map encodeVarint vs)))"
  then show "readUInt_calls (Suc (length vs)) p =
        Inr (vs, (advance p (length (concat (map encodeVarint vs)))
                    (of_nat (length (concat (map encodeVarint vs)))))\<lparr>field_end := REACHED_END\<rparr>)"
    by (intro readUInt_calls_packed) simp_all
next
  assume a: "field_end t = END_OF_VARINT \<and> cursor t < END_OF_VARINT \<and> readVarint t = Inr (x, t1)"
  then show "readUInt t = Inr (Some x, t1\<lparr>field_end := REACHED_END\<rparr>)"
    by (simp add: readUInt_step)
  show "readUInt (t1\<lparr>field_end := REACHED_END\<rparr>) = Inr (None, t1\<lparr>field_end := REACHED_END\<rparr>)"
    using readUInt_exhausted [of "t1\<lparr>field_end := REACHED_END\<rparr>"] by (simp add: REACHED_END_def)
qed


theorem readUInt_one_value_per_call_witness:
  "readUInt \<lparr>inp = \<lparr>working_buffer = [5, 0x0A, 3, 1, 0xAC, 2], pos = 3\<rparr>, cursor = 4,
             current_message_end = 7, field_end = 7, parent_message_ends = []\<rparr>
     = Inr (Some 1, \<lparr>inp = \<lparr>working_buffer = [5, 0x0A, 3, 1, 0xAC, 2], pos = 4\<rparr>, cursor = 5,
                      current_message_end = 7, field_end = 7, parent_message_ends = []\<rparr>) \<and>
   readUInt \<lparr>inp = \<lparr>working_buffer = [5, 0x0A, 3, 1, 0xAC, 2], pos = 6\<rparr>, cursor = 7,
             current_message_end = 7, field_end = 7, parent_message_ends = []\<rparr>
     = Inr (None, \<lparr>inp = \<lparr>working_buffer = [5, 0x0A, 3, 1, 0xAC, 2], pos = 6\<rparr>, cursor = 7,
                    current_message_end = 7, field_end = 0, parent_message_ends = []\<rparr>) \<and>
   readUInt_calls 3 \<lparr>inp = \<lparr>working_buffer = [5, 0x0A, 3, 1, 0xAC, 2], pos = 3\<rparr>, cursor = 4,
                     current_message_end = 7, field_end = 7, parent_message_ends = []\<rparr>
     = Inr ([1, 300], \<lparr>inp = \<lparr>working_buffer = [5, 0x0A, 3, 1, 0xAC, 2], pos = 6\<rparr>, cursor = 7,
                        current_message_end = 7, field_end = 0, parent_message_ends = []\<rparr>) \<and>
   readUInt \<lparr>inp = \<lparr>working_buffer = [2, 8, 42], pos = 2\<rparr>, cursor = 3,
             current_message_end = 4, field_end = END_OF_VARINT, parent_message_ends = []\<rparr>
     = Inr (Some 42, \<lparr>inp = \<lparr>working_buffer = [2, 8, 42], pos = 3\<rparr>, cursor = 4,
                       current_message_end = 4, field_end = 0, parent_message_ends = []\<rparr>) \<and>
   readUInt \<lparr>inp = \<lparr>working_buffer = [2, 8, 42], pos = 3\<rparr>, cursor = 4,
             current_message_end = 4, field_end = 0, parent_message_ends = []\<rparr>
     = Inr (None, \<lparr>inp = \<lparr>working_buffer = [2, 8, 42], pos = 3\<rparr>, cursor = 4,
                    current_message_end = 4, field_end = 0, parent_message_ends = []\<rparr>)"
proof -
  let ?s = "\<lparr>inp = \<lparr>working_buffer = [5, 0x0A, 3, 1, 0xAC, 2 :: byte], pos = 3\<rparr>, cursor = 4,
             current_message_end = 7, field_end = 7, parent_message_ends = []\<rparr>"
  let ?q = "\<lparr>inp = \<lparr>working_buffer = [5, 0x0A, 3, 1, 0xAC, 2 :: byte], pos = 6\<rparr>, cursor = 7,
             current_message_end = 7, field_end = 7, parent_message_ends = []\<rparr>"
  let ?t = "\<lparr>inp = \<lparr>working_buffer = [2, 8, 42 :: byte], pos = 2\<rparr>, cursor = 3,
             current_message_end = 4, field_end = END_OF_VARINT, parent_message_ends = []\<rparr>"
  let ?t1 = "\<lparr>inp = \<lparr>working_buffer = [2, 8, 42 :: byte], pos = 3\<rparr>, cursor = 4,
              current_message_end = 4, field_end = END_OF_VARINT, parent_message_ends = []\<rparr>"
  have enc: "encodeVarint 1 = [1]" "encodeVarint 300 = [0xAC, 2]"
    by (simp_all add: encodeVarint.simps)
  have rs: "readVarint ?s = Inr (1, advance ?s 1 1)"
    by (simp add: readVarint_def READ_HELPER.simps readStrict1_def advance_def)
  have rt: "readVarint ?t = Inr (42, ?t1)"
    by (simp add: readVarint_def READ_HELPER.simps readStrict1_def)
  have hs: "cursor ?s < field_end ?s \<and> field_end ?s \<noteq> END_OF_VARINT"
    by (simp add: END_OF_VARINT_def)
  have hq: "field_end ?q \<le> cursor ?q"
    by simp
  have hp: "unread ?s = concat (map encodeVarint [1, 300]) @ [] \<and>
    unat (cursor ?s) + length (concat (map encodeVarint [1, 300])) < 2 ^ 64 - 1 \<and>
    field_end ?s = cursor ?s + of_nat (length (concat (map encodeVarint [1, 300])))"
    by (simp add: enc unread_def)
  have ht: "field_end ?t = END_OF_VARINT \<and> cursor ?t < END_OF_VARINT \<and> readVarint ?t = Inr (42, ?t1)"
    using rt by (simp add: END_OF_VARINT_def)
  note inst = readUInt_one_value_per_call [of ?s ?q ?s "[1, 300]" "[]" ?t 42 ?t1]
  from inst hs rs have c1: "readUInt ?s = Inr (Some 1, advance ?s 1 1)"
    by simp
  from inst hq have c2: "readUInt ?q = Inr (None, ?q\<lparr>field_end := REACHED_END\<rparr>)"
    by blast
  have three: "Suc (length [1, 300 :: UInt64]) = 3"
    by simp
  from inst hp have "readUInt_calls (Suc (length [1, 300 :: UInt64])) ?s =
      Inr ([1, 300], (advance ?s (length (concat (map encodeVarint [1, 300])))
                        (of_nat (length (concat (map encodeVarint [1, 300])))))\<lparr>field_end := REACHED_END\<rparr>)"
    by blast
  then have c3: "readUInt_calls 3 ?s =
      Inr ([1, 300], (advance ?s (length (concat (map encodeVarint [1, 300])))
                        (of_nat (length (concat (map encodeVarint [1, 300])))))\<lparr>field_end := REACHED_END\<rparr>)"
    unfolding three .
  from inst ht have c4: "readUInt ?t = Inr (Some 42, ?t1\<lparr>field_end := REACHED_END\<rparr>)"
    and c5: "readUInt (?t1\<lparr>field_end := REACHED_END\<rparr>) = Inr (None, ?t1\<lparr>field_end := REACHED_END\<rparr>)"
    by blast+
  from c1 c2 c3 c4 c5 show ?thesis
    by (simp add: enc advance_def REACHED_END_def)
qed

section \<open>Groups\<close>

text \<open>
  C1.  The payload \<open>08 01 0C\<close> of a group (field 1, a varint of value 1, then the
  \<open>GROUP_END\<close> tag of field 1) is well formed, and \<open>ignoreGroup\<close> raises
  UnknownFormat on it: after the inner field the \<open>break\<close> leaves the \<open>switch\<close>
  and control reaches \<open>unknownFormat()\<close>.  So do \<open>endMessage\<close> on a group frame
  and \<open>readFieldNumber\<close> on an in-progress group field.  Only an empty group
  (\<open>0C\<close>) is skipped.
\<close>

theorem ignoreGroup_inner_field:
  "ignoreGroup \<lparr>inp = \<lparr>working_buffer = [0x08, 0x01, 0x0C], pos = 0\<rparr>, cursor = 1,
                 current_message_end = 0, field_end = 0, parent_message_ends = []\<rparr>
     = Inl UNKNOWN_PROTOBUF_FORMAT \<and>
   endMessage \<lparr>inp = \<lparr>working_buffer = [0x08, 0x01, 0x0C], pos = 0\<rparr>, cursor = 1,
                current_message_end = END_OF_GROUP, field_end = 0, parent_message_ends = [9]\<rparr>
     = Inl UNKNOWN_PROTOBUF_FORMAT \<and>
   readFieldNumber \<lparr>inp = \<lparr>working_buffer = [0x08, 0x01, 0x0C], pos = 0\<rparr>, cursor = 1,
                     current_message_end = 9, field_end = END_OF_GROUP, parent_message_ends = []\<rparr>
     = Inl UNKNOWN_PROTOBUF_FORMAT \<and>
   ignoreGroup \<lparr>inp = \<lparr>working_buffer = [0x0C], pos = 0\<rparr>, cursor = 1,
                 current_message_end = 0, field_end = 0, parent_message_ends = []\<rparr>
     = Inr \<lparr>inp = \<lparr>working_buffer = [0x0C], pos = 1\<rparr>, cursor = 2,
            current_message_end = 0, field_end = 0, parent_message_ends = []\<rparr>"
  by (simp add: ignoreGroup_def ignoreGroup_loop.simps ignoreGroup_switch_def readVarint_def
        ignoreVarint_def READ_HELPER.simps IGNORE_HELPER.simps readStrict1_def to_WireType_def
        unknownFormat_def endMessage_def readFieldNumber_def REACHED_END_def END_OF_GROUP_def
        END_OF_VARINT_def)

section \<open>Closing a frame\<close>

lemma moveCursorBackward_eq:
  "moveCursorBackward s k =
     (if pos (inp s) < unat k then Inl UNKNOWN_PROTOBUF_FORMAT
      else Inr (s\<lparr>inp := (inp s)\<lparr>pos := pos (inp s) - unat k\<rparr>, cursor := cursor s - k\<rparr>))"
  by (simp add: moveCursorBackward_def offset_def unknownFormat_def)

text \<open>
  C2, as the code has it.  When \<open>endMessage\<close> finds the cursor strictly past
  \<open>current_message_end\<close> (the frame being neither finished nor a group), it raises
  UnknownFormat for a nested frame (non-empty parent stack); for the root frame (empty
  parent stack) it moves the cursor back to \<open>current_message_end\<close>, provided that many
  bytes are still in the buffer, and raises UnknownFormat otherwise.
\<close>

theorem endMessage_overshoot:
  assumes "current_message_end s < cursor s"
    and "current_message_end s \<noteq> REACHED_END" and "current_message_end s \<noteq> END_OF_GROUP"
  shows "endMessage s =
           (if parent_message_ends s \<noteq> [] then Inl UNKNOWN_PROTOBUF_FORMAT
            else if pos (inp s) < unat (cursor s - current_message_end s)
            then Inl UNKNOWN_PROTOBUF_FORMAT
            else Inr (s\<lparr>inp := (inp s)\<lparr>pos := pos (inp s) - unat (cursor s - current_message_end s)\<rparr>,
                        cursor := current_message_end s,
                        current_message_end := REACHED_END,
                        field_end := REACHED_END\<rparr>))"
proof -
  from assms(1) have "\<not> cursor s < current_message_end s"
    by simp
  with assms show ?thesis
    by (simp add: endMessage_def moveCursorBackward_eq unknownFormat_def Let_def)
qed

theorem endMessage_overshoot_witness:
  "endMessage \<lparr>inp = \<lparr>working_buffer = [2, 8, 42, 7], pos = 4\<rparr>, cursor = 5,
                current_message_end = 4, field_end = 0, parent_message_ends = []\<rparr>
     = Inr \<lparr>inp = \<lparr>working_buffer = [2, 8, 42, 7], pos = 3\<rparr>, cursor = 4,
            current_message_end = 0, field_end = 0, parent_message_ends = []\<rparr> \<and>
   endMessage \<lparr>inp = \<lparr>working_buffer = [2, 8, 42, 7], pos = 4\<rparr>, cursor = 5,
                current_message_end = 4, field_end = 0, parent_message_ends = [9]\<rparr>
     = Inl UNKNOWN_PROTOBUF_FORMAT"
proof -
  let ?root = "\<lparr>inp = \<lparr>working_buffer = [2, 8, 42, 7 :: byte], pos = 4\<rparr>, cursor = 5,
                current_message_end = 4, field_end = 0, parent_message_ends = []\<rparr>"
  let ?nested = "\<lparr>inp = \<lparr>working_buffer = [2, 8, 42, 7 :: byte], pos = 4\<rparr>, cursor = 5,
                  current_message_end = 4, field_end = 0, parent_message_ends = [9]\<rparr>"
  have "current_message_end ?root < cursor ?root" "current_message_end ?root \<noteq> REACHED_END"
    "current_message_end ?root \<noteq> END_OF_GROUP"
    by (simp_all add: REACHED_END_def END_OF_GROUP_def)
  note root = endMessage_overshoot [OF this]
  have "current_message_end ?nested < cursor ?nested" "current_message_end ?nested \<noteq> REACHED_END"
    "current_message_end ?nested \<noteq> END_OF_GROUP"
    by (simp_all add: REACHED_END_def END_OF_GROUP_def)
  note nested = endMessage_overshoot [OF this]
  from root nested show ?thesis
    by (simp add: REACHED_END_def)
qed

text \<open>The claim as the spec words it fails: a root frame that was overshot is rewound
  and no exception is raised, and a nested frame that was overshot raises UnknownFormat
  and is not rewound.\<close>

theorem endMessage_overshoot_counterexample:
  "endMessage \<lparr>inp = \<lparr>working_buffer = [3, 8, 1, 16, 5], pos = 5\<rparr>, cursor = 6,
                current_message_end = 5, field_end = 0, parent_message_ends = []\<rparr>
     = Inr \<lparr>inp = \<lparr>working_buffer = [3, 8, 1, 16, 5], pos = 4\<rparr>, cursor = 5,
            current_message_end = 0, field_end = 0, parent_message_ends = []\<rparr> \<and>
   endMessage \<lparr>inp = \<lparr>working_buffer = [3, 8, 1, 16, 5], pos = 5\<rparr>, cursor = 6,
                current_message_end = 5, field_end = 0, parent_message_ends = [7]\<rparr>
     = Inl UNKNOWN_PROTOBUF_FORMAT"
  by (simp add: endMessage_def moveCursorBackward_eq unknownFormat_def REACHED_END_def
        END_OF_GROUP_def)


section \<open>The stack of message ends\<close>

lemma ignore_eq:
  "ignore s k =
     (if length (working_buffer (inp s)) < pos (inp s) + unat k then Inl READ_BUFFER_ERROR
      else Inr (advance s (unat k) k))"
  by (simp add: ignore_def ignore_in_def advance_def)

lemma startMessage_nested:
  assumes "\<not> (current_message_end s = REACHED_END \<and> parent_message_ends s = [])"
  shows "startMessage s =
           Inr (True, s\<lparr>parent_message_ends := parent_message_ends s @ [current_message_end s],
                         current_message_end := field_end s,
                         field_end := REACHED_END\<rparr>)"
  using assms by (auto simp: startMessage_def)

lemma non_increasing_push:
  "non_increasing (ends @ [e, pushed]) \<longleftrightarrow> non_increasing (ends @ [e]) \<and> pushed \<le> e"
proof -
  have "ends @ [e, pushed] = (ends @ [e]) @ [pushed]"
    by simp
  then have "non_increasing (ends @ [e, pushed]) \<longleftrightarrow>
      non_increasing (ends @ [e]) \<and> (\<forall>x\<in>set (ends @ [e]). pushed \<le> x)"
    unfolding non_increasing_def by (simp only: sorted_wrt_append) simp
  moreover have "\<forall>x\<in>set (ends @ [e]). pushed \<le> x"
    if "non_increasing (ends @ [e])" and "pushed \<le> e"
    using that by (auto simp: non_increasing_def sorted_wrt_append intro: order_trans)
  ultimately show ?thesis
    by auto
qed

lemma endMessage_nested:
  assumes "parent_message_ends t \<noteq> []" and "current_message_end t \<noteq> REACHED_END"
    and "current_message_end t \<noteq> END_OF_GROUP"
  shows "endMessage t =
        (if current_message_end t < cursor t then Inl UNKNOWN_PROTOBUF_FORMAT
         else if cursor t < current_message_end t \<and>
                 length (working_buffer (inp t))
                   < pos (inp t) + unat (current_message_end t - cursor t)
         then Inl READ_BUFFER_ERROR
         else Inr ((advance t (unat (current_message_end t - cursor t))
                      (current_message_end t - cursor t))
                     \<lparr>current_message_end := last (parent_message_ends t),
                      parent_message_ends := butlast (parent_message_ends t),
                      field_end := REACHED_END\<rparr>))"
proof (cases "cursor t < current_message_end t")
  case True
  then have "\<not> current_message_end t < cursor t"
    by simp
  with assms True show ?thesis
    by (simp add: endMessage_def ignore_eq Let_def advance_def)
next
  case False
  show ?thesis
  proof (cases "current_message_end t < cursor t")
    case True
    with assms False show ?thesis
      by (simp add: endMessage_def unknownFormat_def)
  next
    case eq: False
    with False have "current_message_end t - cursor t = 0"
      by simp
    with assms False eq show ?thesis
      by (simp add: endMessage_def Let_def advance_def)
  qed
qed

lemma endMessage_finished:
  assumes "parent_message_ends u \<noteq> []" and "current_message_end u = REACHED_END"
  shows "endMessage u =
        Inr (u\<lparr>current_message_end := last (parent_message_ends u),
                parent_message_ends := butlast (parent_message_ends u),
                field_end := REACHED_END\<rparr>)"
  using assms by (simp add: endMessage_def Let_def)

lemma endMessage_any_parents:
  assumes "parent_message_ends t \<noteq> []" and "ends \<noteq> []"
    and "current_message_end t \<noteq> END_OF_GROUP"
  shows "without_ends (endMessage (t\<lparr>parent_message_ends := ends\<rparr>)) = without_ends (endMessage t)"
proof (cases "current_message_end t = REACHED_END")
  case True
  with assms show ?thesis
    by (simp add: endMessage_finished without_ends_def)
next
  case False
  with assms show ?thesis
    by (simp add: endMessage_nested without_ends_def advance_def)
qed

text \<open>
  C3, as the code has it.  The scanner keeps no order on the stack of message ends.
  \<open>startMessage\<close> on an active frame pushes \<open>current_message_end\<close> on the parent
  stack and makes \<open>field_end\<close> the new \<open>current_message_end\<close> without comparing the
  two; after it the message ends do not increase from the bottom of the stack to the top
  if and only if they did not before and \<open>field_end \<le> current_message_end\<close>.
  \<open>endMessage\<close> on a nested frame that is neither a group nor finished raises
  UnknownFormat if and only if the cursor is strictly past that frame's own end;
  otherwise it skips to that end (with the stream's error if the bytes are missing) and
  pops the parent's end.  On a nested frame that \<open>readFieldNumber\<close> has finished
  (\<open>current_message_end = REACHED_END\<close>) it pops with no check.  For a nested frame
  that is not a group, what \<open>endMessage\<close> does apart from the pop (the exception, the
  cursor, the stream position) is the same whatever ends the parent stack holds.
\<close>

theorem nested_frame_push_pop:
  "(\<not> (current_message_end s = REACHED_END \<and> parent_message_ends s = []) \<longrightarrow>
      startMessage s =
        Inr (True, s\<lparr>parent_message_ends := parent_message_ends s @ [current_message_end s],
                      current_message_end := field_end s,
                      field_end := REACHED_END\<rparr>)) \<and>
   (\<not> (current_message_end s = REACHED_END \<and> parent_message_ends s = []) \<and>
    startMessage s = Inr (b, s') \<longrightarrow>
      (non_increasing (message_ends s') \<longleftrightarrow>
         non_increasing (message_ends s) \<and> field_end s \<le> current_message_end s)) \<and>
   (parent_message_ends t \<noteq> [] \<and> current_message_end t \<noteq> REACHED_END \<and>
    current_message_end t \<noteq> END_OF_GROUP \<longrightarrow>
      endMessage t =
        (if current_message_end t < cursor t then Inl UNKNOWN_PROTOBUF_FORMAT
         else if cursor t < current_message_end t \<and>
                 length (working_buffer (inp t))
                   < pos (inp t) + unat (current_message_end t - cursor t)
         then Inl READ_BUFFER_ERROR
         else Inr ((advance t (unat (current_message_end t - cursor t))
                      (current_message_end t - cursor t))
                     \<lparr>current_message_end := last (parent_message_ends t),
                      parent_message_ends := butlast (parent_message_ends t),
                      field_end := REACHED_END\<rparr>)) \<and>
      (endMessage t = Inl UNKNOWN_PROTOBUF_FORMAT \<longleftrightarrow> current_message_end t < cursor t)) \<and>
   (parent_message_ends u \<noteq> [] \<and> current_message_end u = REACHED_END \<longrightarrow>
      endMessage u =
        Inr (u\<lparr>current_message_end := last (parent_message_ends u),
                parent_message_ends := butlast (parent_message_ends u),
                field_end := REACHED_END\<rparr>)) \<and>
   (parent_message_ends w \<noteq> [] \<and> ends \<noteq> [] \<and> current_message_end w \<noteq> END_OF_GROUP \<longrightarrow>
      without_ends (endMessage (w\<lparr>parent_message_ends := ends\<rparr>)) = without_ends (endMessage w))"
proof (intro conjI impI)
  assume "\<not> (current_message_end s = REACHED_END \<and> parent_message_ends s = [])"
  then show "startMessage s =
        Inr (True, s\<lparr>parent_message_ends := parent_message_ends s @ [current_message_end s],
                      current_message_end := field_end s,
                      field_end := REACHED_END\<rparr>)"
    by (rule startMessage_nested)
next
  assume "\<not> (current_message_end s = REACHED_END \<and> parent_message_ends s = []) \<and>
    startMessage s = Inr (b, s')"
  then have pushed: "message_ends s' = parent_message_ends s @ [current_message_end s, field_end s]"
    by (auto simp: startMessage_nested message_ends_def)
  show "non_increasing (message_ends s') \<longleftrightarrow>
         non_increasing (message_ends s) \<and> field_end s \<le> current_message_end s"
    unfolding pushed unfolding message_ends_def by (rule non_increasing_push)
next
  assume a: "parent_message_ends t \<noteq> [] \<and> current_message_end t \<noteq> REACHED_END \<and>
    current_message_end t \<noteq> END_OF_GROUP"
  then show eq: "endMessage t =
        (if current_message_end t < cursor t then Inl UNKNOWN_PROTOBUF_FORMAT
         else if cursor t < current_message_end t \<and>
                 length (working_buffer (inp t))
                   < pos (inp t) + unat (current_message_end t - cursor t)
         then Inl READ_BUFFER_ERROR
         else Inr ((advance t (unat (current_message_end t - cursor t))
                      (current_message_end t - cursor t))
                     \<lparr>current_message_end := last (parent_message_ends t),
                      parent_message_ends := butlast (parent_message_ends t),
                      field_end := REACHED_END\<rparr>))"
    by (intro endMessage_nested) simp_all
  show "endMessage t = Inl UNKNOWN_PROTOBUF_FORMAT \<longleftrightarrow> current_message_end t < cursor t"
    unfolding eq by simp
next
  assume "parent_message_ends u \<noteq> [] \<and> current_message_end u = REACHED_END"
  then show "endMessage u =
        Inr (u\<lparr>current_message_end := last (parent_message_ends u),
                parent_message_ends := butlast (parent_message_ends u),
                field_end := REACHED_END\<rparr>)"
    by (intro endMessage_finished) simp_all
next
  assume "parent_message_ends w \<noteq> [] \<and> ends \<noteq> [] \<and> current_message_end w \<noteq> END_OF_GROUP"
  then show "without_ends (endMessage (w\<lparr>parent_message_ends := ends\<rparr>)) = without_ends (endMessage w)"
    by (intro endMessage_any_parents) simp_all
qed

theorem nested_frame_push_pop_witness:
  "startMessage \<lparr>inp = \<lparr>working_buffer = [3, 0x0A, 6, 8, 1, 16, 2, 24, 3], pos = 3\<rparr>, cursor = 4,
                  current_message_end = 5, field_end = 10, parent_message_ends = []\<rparr>
     = Inr (True, \<lparr>inp = \<lparr>working_buffer = [3, 0x0A, 6, 8, 1, 16, 2, 24, 3], pos = 3\<rparr>, cursor = 4,
                    current_message_end = 10, field_end = 0, parent_message_ends = [5]\<rparr>) \<and>
   non_increasing (message_ends
      \<lparr>inp = \<lparr>working_buffer = [3, 0x0A, 6, 8, 1, 16, 2, 24, 3], pos = 3\<rparr>, cursor = 4,
       current_message_end = 5, field_end = 10, parent_message_ends = []\<rparr>) \<and>
   \<not> non_increasing (message_ends
      \<lparr>inp = \<lparr>working_buffer = [3, 0x0A, 6, 8, 1, 16, 2, 24, 3], pos = 3\<rparr>, cursor = 4,
       current_message_end = 10, field_end = 0, parent_message_ends = [5]\<rparr>) \<and>
   endMessage \<lparr>inp = \<lparr>working_buffer = [3, 0x0A, 6, 8, 1, 16, 2, 24, 3], pos = 3\<rparr>, cursor = 4,
                current_message_end = 10, field_end = 0, parent_message_ends = [5]\<rparr>
     = Inr \<lparr>inp = \<lparr>working_buffer = [3, 0x0A, 6, 8, 1, 16, 2, 24, 3], pos = 9\<rparr>, cursor = 10,
            current_message_end = 5, field_end = 0, parent_message_ends = []\<rparr> \<and>
   endMessage \<lparr>inp = \<lparr>working_buffer = [3, 0x0A, 6, 8, 1, 16, 2, 24, 3], pos = 9\<rparr>, cursor = 10,
                current_message_end = 0, field_end = 0, parent_message_ends = [5]\<rparr>
     = Inr \<lparr>inp = \<lparr>working_buffer = [3, 0x0A, 6, 8, 1, 16, 2, 24, 3], pos = 9\<rparr>, cursor = 10,
            current_message_end = 5, field_end = 0, parent_message_ends = []\<rparr> \<and>
   without_ends (endMessage
      \<lparr>inp = \<lparr>working_buffer = [3, 0x0A, 6, 8, 1, 16, 2, 24, 3], pos = 3\<rparr>, cursor = 4,
       current_message_end = 10, field_end = 0, parent_message_ends = [12, 11]\<rparr>)
     = Inr \<lparr>inp = \<lparr>working_buffer = [3, 0x0A, 6, 8, 1, 16, 2, 24, 3], pos = 9\<rparr>, cursor = 10,
            current_message_end = 0, field_end = 0, parent_message_ends = []\<rparr>"
proof -
  let ?s = "\<lparr>inp = \<lparr>working_buffer = [3, 0x0A, 6, 8, 1, 16, 2, 24, 3 :: byte], pos = 3\<rparr>, cursor = 4,
             current_message_end = 5, field_end = 10, parent_message_ends = []\<rparr>"
  let ?t = "\<lparr>inp = \<lparr>working_buffer = [3, 0x0A, 6, 8, 1, 16, 2, 24, 3 :: byte], pos = 3\<rparr>, cursor = 4,
             current_message_end = 10, field_end = 0, parent_message_ends = [5]\<rparr>"
  let ?u = "\<lparr>inp = \<lparr>working_buffer = [3, 0x0A, 6, 8, 1, 16, 2, 24, 3 :: byte], pos = 9\<rparr>, cursor = 10,
             current_message_end = 0, field_end = 0, parent_message_ends = [5]\<rparr>"
  let ?t' = "\<lparr>inp = \<lparr>working_buffer = [3, 0x0A, 6, 8, 1, 16, 2, 24, 3 :: byte], pos = 9\<rparr>, cursor = 10,
              current_message_end = 5, field_end = 0, parent_message_ends = []\<rparr>"
  note inst = nested_frame_push_pop [of ?s True ?t ?t ?u ?t "[12, 11]"]
  have hs: "\<not> (current_message_end ?s = REACHED_END \<and> parent_message_ends ?s = [])"
    by (simp add: REACHED_END_def)
  have ht: "parent_message_ends ?t \<noteq> [] \<and> current_message_end ?t \<noteq> REACHED_END \<and>
    current_message_end ?t \<noteq> END_OF_GROUP"
    by (simp add: REACHED_END_def END_OF_GROUP_def)
  have hu: "parent_message_ends ?u \<noteq> [] \<and> current_message_end ?u = REACHED_END"
    by (simp add: REACHED_END_def)
  have hw: "parent_message_ends ?t \<noteq> [] \<and> [12, 11 :: UInt64] \<noteq> [] \<and>
    current_message_end ?t \<noteq> END_OF_GROUP"
    by (simp add: END_OF_GROUP_def)
  from inst hs have c1: "startMessage ?s = Inr (True, ?t)"
    by (simp add: REACHED_END_def)
  have c2: "non_increasing (message_ends ?s)"
    by (simp add: non_increasing_def message_ends_def)
  from inst hs c1 have c3: "\<not> non_increasing (message_ends ?t)"
    by simp
  from inst ht have c4: "endMessage ?t = Inr ?t'"
    by (simp add: advance_def REACHED_END_def)
  from inst hu have c5: "endMessage ?u = Inr ?t'"
    by (simp add: REACHED_END_def)
  from inst hw c4 have c6: "without_ends (endMessage (?t\<lparr>parent_message_ends := [12, 11]\<rparr>))
      = Inr (?t'\<lparr>current_message_end := 0\<rparr>)"
    by (simp add: without_ends_def REACHED_END_def)
  from c1 c2 c3 c4 c5 c6 show ?thesis
    by simp
qed

text \<open>
  The claim as the spec words it fails on both counts.  On the well-formed stream
  \<open>0A 0A 06 0A 02 08 01 10 01 10 01\<close> (a message in a message in the root message) the
  scanner reaches a state whose message ends are 12, 10, 8 from the bottom of the stack
  to the top: they decrease.  On the stream \<open>03 0A 06 08 01 10 02 18 03\<close> the root
  message declares 3 bytes and its nested message 6; the scanner reads the three fields
  of the nested message, closes it and closes the root without any exception, three
  bytes past the end of the root message.
\<close>

theorem nested_frame_counterexample:
  "andThen (startMessage (SimpleReader_init
      \<lparr>working_buffer = [0x0A, 0x0A, 0x06, 0x0A, 0x02, 0x08, 0x01, 0x10, 0x01, 0x10, 0x01], pos = 0\<rparr>))
    (\<lambda>(b, s). andThen (readFieldNumber s)
    (\<lambda>(f, s). andThen (startMessage s)
    (\<lambda>(b, s). andThen (readFieldNumber s)
    (\<lambda>(f, s). andThen (startMessage s)
    (\<lambda>(b, s). Inr (parent_message_ends s @ [current_message_end s]))))))
     = Inr [12, 10, 8] \<and>
   andThen (startMessage (SimpleReader_init
      \<lparr>working_buffer = [0x03, 0x0A, 0x06, 0x08, 0x01, 0x10, 0x02, 0x18, 0x03], pos = 0\<rparr>))
    (\<lambda>(b, s). andThen (readFieldNumber s)
    (\<lambda>(f1, s). andThen (startMessage s)
    (\<lambda>(b, s). andThen (readFieldNumber s)
    (\<lambda>(g1, s). andThen (readFieldNumber s)
    (\<lambda>(g2, s). andThen (readFieldNumber s)
    (\<lambda>(g3, s). andThen (readFieldNumber s)
    (\<lambda>(g4, s). andThen (endMessage s)
    (\<lambda>s. andThen (readFieldNumber s)
    (\<lambda>(f2, s). andThen (endMessage s)
    (\<lambda>s. Inr ([f1, g1, g2, g3, g4, f2], s)))))))))))
     = Inr ([Some 1, Some 1, Some 2, Some 3, None, None],
            \<lparr>inp = \<lparr>working_buffer = [0x03, 0x0A, 0x06, 0x08, 0x01, 0x10, 0x02, 0x18, 0x03],
                     pos = 9\<rparr>,
              cursor = 10, current_message_end = 0, field_end = 0, parent_message_ends = []\<rparr>)"
  by (simp add: startMessage_def readFieldNumber_def endMessage_def eof_def
        SimpleReader_init_def readVarint_def ignoreVarint_def READ_HELPER.simps
        IGNORE_HELPER.simps readStrict1_def to_WireType_def unknownFormat_def
        REACHED_END_def END_OF_GROUP_def END_OF_VARINT_def)


section \<open>Numeric converters\<close>

lemma END_OF_VARINT_numeral: "END_OF_VARINT = 0xFFFFFFFFFFFFFFFF"
  by (simp add: END_OF_VARINT_def)

lemma END_OF_GROUP_numeral: "END_OF_GROUP = 0xFFFFFFFFFFFFFFFE"
  by (simp add: END_OF_GROUP_def)

lemma from_le_bytes_bounds: "0 \<le> from_le_bytes bs \<and> from_le_bytes bs < 256 ^ length bs"
proof (induction bs)
  case Nil
  show ?case by simp
next
  case (Cons b bs)
  have "0 \<le> uint b" "uint b < 256"
    using uint_lt2p [of b] by simp_all
  with Cons show ?case
    by simp
qed

lemma static_cast_signed_bounds:
  assumes "0 < bits"
  shows "- (2 ^ (bits - 1)) \<le> static_cast_signed bits v \<and> static_cast_signed bits v < 2 ^ (bits - 1)"
proof -
  have "(2 :: int) ^ bits = 2 * 2 ^ (bits - 1)"
    using assms by (cases bits) simp_all
  moreover have "0 \<le> (v + 2 ^ (bits - 1)) mod 2 ^ bits" "(v + 2 ^ (bits - 1)) mod 2 ^ bits < 2 ^ bits"
    by simp_all
  ultimately show ?thesis
    unfolding static_cast_signed_def by linarith
qed

lemma readBinary_length:
  "readBinary s n = Inr (bs, s1) \<Longrightarrow> length bs = n"
  by (auto simp: readBinary_def readStrict_def andThen_Inr_iff split: if_splits)

lemma readFixed_length:
  "readFixed n s = Inr (Some bs, s1) \<Longrightarrow> length bs = n"
  by (auto simp: readFixed_def andThen_Inr_iff dest: readBinary_length split: if_splits)

lemma sint64_bounds: "- (2 ^ 63) \<le> sint (w :: UInt64) \<and> sint w \<le> 2 ^ 63 - 1"
  using sint_ge [of w] sint_lt [of w] by simp

lemma uint64_bounds: "0 \<le> uint (w :: UInt64) \<and> uint w \<le> 2 ^ 64 - 1"
  using uint_lt2p [of w] by simp

lemma readField_in_range:
  assumes "readField ft s = Inr (Some x, s1)"
  shows "has_type (field_type ft) x"
proof (cases ft)
  case TYPE_INT32
  with assms show ?thesis
    using sint64_bounds
    by (auto simp: readInt_def andThen_Inr_iff as_Integer_def split: option.splits)
next
  case TYPE_SINT32
  with assms show ?thesis
    using sint64_bounds
    by (auto simp: readSInt_def andThen_Inr_iff as_Integer_def split: option.splits)
next
  case TYPE_UINT32
  with assms show ?thesis
    using uint64_bounds by (auto simp: andThen_Inr_iff as_unsigned_def)
next
  case TYPE_INT64
  with assms show ?thesis
    using sint64_bounds
    by (auto simp: readInt_def andThen_Inr_iff as_Integer_def split: option.splits)
next
  case TYPE_SINT64
  with assms show ?thesis
    using sint64_bounds
    by (auto simp: readSInt_def andThen_Inr_iff as_Integer_def split: option.splits)
next
  case TYPE_UINT64
  with assms show ?thesis
    using uint64_bounds by (auto simp: andThen_Inr_iff as_unsigned_def)
next
  case TYPE_FIXED32
  with assms obtain bs where "readFixed 4 s = Inr (Some bs, s1)" "x = Integer UInt32 (from_le_bytes bs)"
    by (auto simp: andThen_Inr_iff unsigned_fixed_def)
  with from_le_bytes_bounds [of bs] TYPE_FIXED32 show ?thesis
    by (auto dest!: readFixed_length)
next
  case TYPE_SFIXED32
  with assms obtain y where "x = Integer Int32 (static_cast_signed 32 y)"
    by (auto simp: andThen_Inr_iff signed_fixed_def)
  with static_cast_signed_bounds [of 32 y] TYPE_SFIXED32 show ?thesis
    by simp
next
  case TYPE_FIXED64
  with assms obtain bs where "readFixed 8 s = Inr (Some bs, s1)" "x = Integer UInt64 (from_le_bytes bs)"
    by (auto simp: andThen_Inr_iff unsigned_fixed_def)
  with from_le_bytes_bounds [of bs] TYPE_FIXED64 show ?thesis
    by (auto dest!: readFixed_length)
next
  case TYPE_SFIXED64
  with assms obtain y where "x = Integer Int64 (static_cast_signed 64 y)"
    by (auto simp: andThen_Inr_iff signed_fixed_def)
  with static_cast_signed_bounds [of 64 y] TYPE_SFIXED64 show ?thesis
    by simp
next
  case TYPE_FLOAT
  with assms show ?thesis
    by (auto simp: andThen_Inr_iff floating_fixed_def)
next
  case TYPE_DOUBLE
  with assms show ?thesis
    by (auto simp: andThen_Inr_iff floating_fixed_def)
qed

lemma numericCast_eq:
  assumes "lowest From \<le> n \<and> n \<le> highest From"
  shows "numericCast To From n =
           (if lowest To \<le> n \<and> n \<le> highest To then Inr n else Inl PROTOBUF_BAD_CAST)"
  using assms by (auto simp: numericCast_def numeric_cast_def cannotConvertValue_def)

lemma numericCast_number_eq:
  assumes "has_type T x"
  shows "numericCast_number To x =
           (case integer_part x of
              Some n \<Rightarrow> if lowest To \<le> n \<and> n \<le> highest To then Inr n
                        else Inl PROTOBUF_BAD_CAST
            | None \<Rightarrow> Inl PROTOBUF_BAD_CAST)"
proof (cases x)
  case (Integer From n)
  with assms have "lowest From \<le> n \<and> n \<le> highest From"
    by (cases T) simp_all
  with Integer show ?thesis
    by (simp add: numericCast_number_def numericCast_eq)
next
  case (Floating y)
  then show ?thesis
    by (simp add: numericCast_number_def numericCast_Floating_def numeric_cast_Floating_def
          cannotConvertValue_def split: option.splits)
qed

text \<open>
  C6.  For each of the twelve \<open>ConverterFromNumber\<close> instantiations (the ten
  integral ones, \<open>float\<close> and \<open>double\<close>) and every integral target type \<open>To\<close>:
  when the field yields the number \<open>x\<close>, \<open>readNumeric\<close> returns the integer that
  \<open>x\<close> stands for (the integer itself, or the integer part of a floating-point value)
  if it lies in the range of \<open>To\<close>, and raises BadCast otherwise; so whatever
  \<open>readNumeric\<close> returns lies in the range of \<open>To\<close> and nothing wraps around.  (The
  shortcut of \<open>numericCast\<close> for \<open>To = From\<close> skips no check that could fail: the
  number read is in the range of the converter's own type.)
\<close>

theorem readNumeric_range_checked:
  "(readField ft s = Inr (Some x, s1) \<longrightarrow>
      readNumeric ft To s =
        (case integer_part x of
           Some n \<Rightarrow> if lowest To \<le> n \<and> n \<le> highest To then Inr (Some n, s1)
                     else Inl PROTOBUF_BAD_CAST
         | None \<Rightarrow> Inl PROTOBUF_BAD_CAST)) \<and>
   (readNumeric ft To s = Inr (Some v, s') \<longrightarrow> lowest To \<le> v \<and> v \<le> highest To)"
proof (intro conjI impI)
  assume rd: "readField ft s = Inr (Some x, s1)"
  from numericCast_number_eq [OF readField_in_range [OF rd]] rd
  show "readNumeric ft To s =
        (case integer_part x of
           Some n \<Rightarrow> if lowest To \<le> n \<and> n \<le> highest To then Inr (Some n, s1)
                     else Inl PROTOBUF_BAD_CAST
         | None \<Rightarrow> Inl PROTOBUF_BAD_CAST)"
    by (simp add: readNumeric_def split: option.splits)
next
  assume ok: "readNumeric ft To s = Inr (Some v, s')"
  then obtain x s1 where rd: "readField ft s = Inr (Some x, s1)"
    by (auto simp: readNumeric_def andThen_Inr_iff split: option.splits)
  from numericCast_number_eq [OF readField_in_range [OF rd], of To] rd ok
  show "lowest To \<le> v" "v \<le> highest To"
    by (auto simp: readNumeric_def split: option.splits if_splits)
qed

theorem readNumeric_range_checked_witness:
  "readNumeric TYPE_UINT64 UInt8
     \<lparr>inp = \<lparr>working_buffer = [3, 8, 0xAC, 2], pos = 2\<rparr>, cursor = 3,
      current_message_end = 5, field_end = END_OF_VARINT, parent_message_ends = []\<rparr>
     = Inl PROTOBUF_BAD_CAST \<and>
   readNumeric TYPE_UINT64 UInt16
     \<lparr>inp = \<lparr>working_buffer = [3, 8, 0xAC, 2], pos = 2\<rparr>, cursor = 3,
      current_message_end = 5, field_end = END_OF_VARINT, parent_message_ends = []\<rparr>
     = Inr (Some 300,
            \<lparr>inp = \<lparr>working_buffer = [3, 8, 0xAC, 2], pos = 4\<rparr>, cursor = 5,
             current_message_end = 5, field_end = 0, parent_message_ends = []\<rparr>) \<and>
   readNumeric TYPE_FLOAT UInt8
     \<lparr>inp = \<lparr>working_buffer = [5, 0x0D, 0x00, 0x40, 0x96, 0x43], pos = 2\<rparr>, cursor = 3,
      current_message_end = 7, field_end = 7, parent_message_ends = []\<rparr>
     = Inl PROTOBUF_BAD_CAST \<and>
   readNumeric TYPE_FLOAT UInt16
     \<lparr>inp = \<lparr>working_buffer = [5, 0x0D, 0x00, 0x40, 0x96, 0x43], pos = 2\<rparr>, cursor = 3,
      current_message_end = 7, field_end = 7, parent_message_ends = []\<rparr>
     = Inr (Some 300,
            \<lparr>inp = \<lparr>working_buffer = [5, 0x0D, 0x00, 0x40, 0x96, 0x43], pos = 6\<rparr>, cursor = 7,
             current_message_end = 7, field_end = 0, parent_message_ends = []\<rparr>)"
proof -
  let ?s = "\<lparr>inp = \<lparr>working_buffer = [3, 8, 0xAC, 2 :: byte], pos = 2\<rparr>, cursor = 3,
             current_message_end = 5, field_end = END_OF_VARINT, parent_message_ends = []\<rparr>"
  let ?s1 = "\<lparr>inp = \<lparr>working_buffer = [3, 8, 0xAC, 2 :: byte], pos = 4\<rparr>, cursor = 5,
              current_message_end = 5, field_end = 0, parent_message_ends = []\<rparr>"
  let ?f = "\<lparr>inp = \<lparr>working_buffer = [5, 0x0D, 0x00, 0x40, 0x96, 0x43 :: byte], pos = 2\<rparr>,
             cursor = 3, current_message_end = 7, field_end = 7, parent_message_ends = []\<rparr>"
  let ?f1 = "\<lparr>inp = \<lparr>working_buffer = [5, 0x0D, 0x00, 0x40, 0x96, 0x43 :: byte], pos = 6\<rparr>,
              cursor = 7, current_message_end = 7, field_end = 0, parent_message_ends = []\<rparr>"
  have rd: "readField TYPE_UINT64 ?s = Inr (Some (Integer UInt64 300), ?s1)"
    by (simp add: readUInt_def readVarint_def READ_HELPER.simps readStrict1_def
          END_OF_VARINT_numeral REACHED_END_def as_unsigned_def)
  have fl: "readField TYPE_FLOAT ?f = Inr (Some (Floating (Finite 9846784 (- 15))), ?f1)"
    by (simp add: readFixed_def readBinary_def readStrict_def REACHED_END_def
          floating_fixed_def ieee754_def)
  from readNumeric_range_checked [of TYPE_UINT64 ?s "Integer UInt64 300" ?s1 UInt8]
    readNumeric_range_checked [of TYPE_UINT64 ?s "Integer UInt64 300" ?s1 UInt16]
    readNumeric_range_checked [of TYPE_FLOAT ?f "Floating (Finite 9846784 (- 15))" ?f1 UInt8]
    readNumeric_range_checked [of TYPE_FLOAT ?f "Floating (Finite 9846784 (- 15))" ?f1 UInt16]
    rd fl
  show ?thesis
    by simp
qed

section \<open>Enum converters\<close>







section \<open>The lazily built enum maps\<close>

text \<open>The scanner itself never dereferences an optional.\<close>

lemma READ_HELPER_no_deref: "READ_HELPER i r s \<noteq> Inl EMPTY_OPTIONAL_DEREFERENCE"
proof (induction i r s rule: READ_HELPER.induct)
  case (1 i result s)
  show ?case
  proof (cases "10 \<le> i")
    case True
    then show ?thesis
      by (subst READ_HELPER.simps) (simp add: unknownFormat_def)
  next
    case False
    show ?thesis
    proof (cases "readStrict1 (inp s)")
      case (Inl e)
      then have "e = READ_BUFFER_ERROR"
        by (auto simp: readStrict1_def split: if_splits)
      with False Inl show ?thesis
        by (subst READ_HELPER.simps) simp
    next
      case (Inr p)
      obtain c rb where p: "p = (c, rb)" by (cases p)
      note IH = "1.IH" [OF False Inr [unfolded p] refl refl refl]
      from False Inr p IH show ?thesis
        by (subst READ_HELPER.simps) (auto simp: Let_def simp del: push_bit_and)
    qed
  qed
qed

lemma readVarint_no_deref: "readVarint s \<noteq> Inl EMPTY_OPTIONAL_DEREFERENCE"
  by (simp add: readVarint_def READ_HELPER_no_deref)

lemma readUInt_no_deref: "readUInt s \<noteq> Inl EMPTY_OPTIONAL_DEREFERENCE"
  using readVarint_no_deref [of s]
  by (auto simp: readUInt_def andThen_Inl_iff)

lemma readInt_no_deref: "readInt s \<noteq> Inl EMPTY_OPTIONAL_DEREFERENCE"
  using readUInt_no_deref [of s]
  by (auto simp: readInt_def andThen_Inl_iff split: option.splits)

lemma readSInt_no_deref: "readSInt s \<noteq> Inl EMPTY_OPTIONAL_DEREFERENCE"
  using readUInt_no_deref [of s]
  by (auto simp: readSInt_def andThen_Inl_iff split: option.splits)

lemma readBinary_no_deref: "readBinary s n \<noteq> Inl EMPTY_OPTIONAL_DEREFERENCE"
  by (auto simp: readBinary_def readStrict_def andThen_Inl_iff)

lemma readFixed_no_deref: "readFixed n s \<noteq> Inl EMPTY_OPTIONAL_DEREFERENCE"
  using readBinary_no_deref [of s n]
  by (auto simp: readFixed_def andThen_Inl_iff)

lemma readStringInto_no_deref: "readStringInto s \<noteq> Inl EMPTY_OPTIONAL_DEREFERENCE"
  using readBinary_no_deref [of s]
  by (auto simp: readStringInto_def andThen_Inl_iff)

lemma readField_no_deref: "readField ft s \<noteq> Inl EMPTY_OPTIONAL_DEREFERENCE"
  using readInt_no_deref [of s] readSInt_no_deref [of s] readUInt_no_deref [of s]
    readFixed_no_deref [of _ s]
  by (cases ft)
     (auto simp: andThen_Inl_iff unsigned_fixed_def signed_fixed_def floating_fixed_def
        as_Integer_def as_unsigned_def)

lemma numericCast_no_deref: "numericCast To From n \<noteq> Inl EMPTY_OPTIONAL_DEREFERENCE"
  by (auto simp: numericCast_def cannotConvertValue_def split: option.splits)

lemma numericCast_number_no_deref: "numericCast_number To x \<noteq> Inl EMPTY_OPTIONAL_DEREFERENCE"
  using numericCast_no_deref
  by (auto simp: numericCast_number_def numericCast_Floating_def cannotConvertValue_def
           split: number.splits option.splits)

lemma readEnum_FromString_deref:
  "readEnum_FromString m T s = Inl EMPTY_OPTIONAL_DEREFERENCE \<longleftrightarrow>
     m = None \<and> (\<exists>temp_string s1. readStringInto s = Inr (Some temp_string, s1))"
proof (cases "readStringInto s")
  case (Inl e)
  with readStringInto_no_deref [of s] show ?thesis
    by (simp add: readEnum_FromString_def)
next
  case (Inr p)
  obtain r s1 where p: "p = (r, s1)" by (cases p)
  with Inr show ?thesis
    by (cases r; cases m)
       (auto simp: readEnum_FromString_def cannotConvertValue_def split: option.splits)
qed

lemma readEnum_FromNumber_deref:
  "readEnum_FromNumber ft S T s = Inl EMPTY_OPTIONAL_DEREFERENCE \<longleftrightarrow>
     S = None \<and> is_integral (field_type ft) \<and>
     (\<exists>x s1 v. readField ft s = Inr (Some x, s1) \<and> numericCast_number T x = Inr v)"
proof (cases "is_integral (field_type ft)")
  case False
  then show ?thesis
    by (simp add: readEnum_FromNumber_def cannotConvertType_def)
next
  case True
  show ?thesis
  proof (cases "readField ft s")
    case (Inl e)
    with True readField_no_deref [of ft s] show ?thesis
      by (simp add: readEnum_FromNumber_def)
  next
    case (Inr p)
    obtain r s1 where p: "p = (r, s1)" by (cases p)
    show ?thesis
    proof (cases r)
      case None
      with True Inr p show ?thesis
        by (simp add: readEnum_FromNumber_def)
    next
      case (Some x)
      show ?thesis
      proof (cases "numericCast_number T x")
        case (Inl e)
        with True \<open>readField ft s = Inr p\<close> p Some numericCast_number_no_deref [of T x]
        show ?thesis
          by (simp add: readEnum_FromNumber_def)
      next
        case cast: (Inr v)
        with True \<open>readField ft s = Inr p\<close> p Some show ?thesis
          by (cases S) (simp_all add: readEnum_FromNumber_def cannotConvertValue_def)
      qed
    qed
  qed
qed

lemma readEnum_Enum_deref:
  "readEnum_Enum c T s = Inl EMPTY_OPTIONAL_DEREFERENCE \<longleftrightarrow>
     enum_pbnumber_to_value_map c = None \<and> (\<exists>pbnumber s1. readInt s = Inr (Some pbnumber, s1))"
proof (cases "readInt s")
  case (Inl e)
  with readInt_no_deref [of s] show ?thesis
    by (simp add: readEnum_Enum_def)
next
  case (Inr p)
  obtain r s1 where p: "p = (r, s1)" by (cases p)
  with Inr show ?thesis
    by (cases r; cases "enum_pbnumber_to_value_map c")
       (auto simp: readEnum_Enum_def cannotConvertValue_def split: option.splits)
qed

text \<open>
  C10, as the code has it.  \<open>readEnum8\<close>/\<open>readEnum16\<close> of the \<open>FromString\<close>
  converter, of the \<open>FromNumber\<close> converters with an integral \<open>T\<close> and of the
  \<open>TYPE_ENUM\<close> converter dereference their optional map without looking whether it
  holds a value.  A call dereferences an empty optional exactly when the map was not
  prepared and the call gets as far as the lookup: the field yields a string
  (\<open>FromString\<close>); \<open>T\<close> is integral and the field yields a number that passes the
  cast to the enum type (\<open>FromNumber\<close>); the field yields an enum number
  (\<open>TYPE_ENUM\<close>).  Every other call without the map is defined (it returns
  \<open>false\<close> or raises an exception of the reader).  A \<open>FromNumber\<close> converter of
  \<open>float\<close> or \<open>double\<close> raises BadCast before it reads anything, prepared or not.
  \<open>prepareEnumMapping\<close> leaves the map with a value, so after it no call dereferences
  an empty optional.  \<open>readStringInto\<close> of the \<open>TYPE_ENUM\<close> converter builds its
  name map itself and never dereferences an empty optional.
\<close>

theorem readEnum_needs_prepareEnumMapping:
  "(readEnum_FromString m T s = Inl EMPTY_OPTIONAL_DEREFERENCE \<longleftrightarrow>
      m = None \<and> (\<exists>temp_string s1. readStringInto s = Inr (Some temp_string, s1))) \<and>
   (readEnum_FromNumber ft S T s = Inl EMPTY_OPTIONAL_DEREFERENCE \<longleftrightarrow>
      S = None \<and> is_integral (field_type ft) \<and>
      (\<exists>x s1 v. readField ft s = Inr (Some x, s1) \<and> numericCast_number T x = Inr v)) \<and>
   (\<not> is_integral (field_type ft) \<longrightarrow> readEnum_FromNumber ft S T s = Inl PROTOBUF_BAD_CAST) \<and>
   (readEnum_Enum c T s = Inl EMPTY_OPTIONAL_DEREFERENCE \<longleftrightarrow>
      enum_pbnumber_to_value_map c = None \<and>
      (\<exists>pbnumber s1. readInt s = Inr (Some pbnumber, s1))) \<and>
   prepareEnumNameToValueMap m pairs \<noteq> None \<and>
   prepareSetOfEnumValues S pairs \<noteq> None \<and>
   enum_pbnumber_to_value_map (prepareEnumPbNumberToValueMap c pairs) \<noteq> None \<and>
   readStringInto_Enum c s \<noteq> Inl EMPTY_OPTIONAL_DEREFERENCE"
proof (intro conjI impI)
  show "readEnum_FromString m T s = Inl EMPTY_OPTIONAL_DEREFERENCE \<longleftrightarrow>
      m = None \<and> (\<exists>temp_string s1. readStringInto s = Inr (Some temp_string, s1))"
    by (rule readEnum_FromString_deref)
next
  show "readEnum_FromNumber ft S T s = Inl EMPTY_OPTIONAL_DEREFERENCE \<longleftrightarrow>
      S = None \<and> is_integral (field_type ft) \<and>
      (\<exists>x s1 v. readField ft s = Inr (Some x, s1) \<and> numericCast_number T x = Inr v)"
    by (rule readEnum_FromNumber_deref)
next
  assume "\<not> is_integral (field_type ft)"
  then show "readEnum_FromNumber ft S T s = Inl PROTOBUF_BAD_CAST"
    by (simp add: readEnum_FromNumber_def cannotConvertType_def)
next
  show "readEnum_Enum c T s = Inl EMPTY_OPTIONAL_DEREFERENCE \<longleftrightarrow>
      enum_pbnumber_to_value_map c = None \<and>
      (\<exists>pbnumber s1. readInt s = Inr (Some pbnumber, s1))"
    by (rule readEnum_Enum_deref)
next
  show "prepareEnumNameToValueMap m pairs \<noteq> None"
    by (simp add: prepareEnumNameToValueMap_def)
next
  show "prepareSetOfEnumValues S pairs \<noteq> None"
    by (simp add: prepareSetOfEnumValues_def)
next
  show "enum_pbnumber_to_value_map (prepareEnumPbNumberToValueMap c pairs) \<noteq> None"
    by (simp add: prepareEnumPbNumberToValueMap_def)
next
  obtain names where "enum_pbnumber_to_name_map (prepareEnumPbNumberToNameMap c) = Some names"
    by (cases "enum_pbnumber_to_name_map c") (auto simp: prepareEnumPbNumberToNameMap_def)
  then show "readStringInto_Enum c s \<noteq> Inl EMPTY_OPTIONAL_DEREFERENCE"
    using readInt_no_deref [of s]
    by (auto simp: readStringInto_Enum_def Let_def andThen_Inl_iff cannotConvertValue_def
             split: option.splits)
qed

theorem readEnum_needs_prepareEnumMapping_witness:
  "readEnum_FromString None Int8
      \<lparr>inp = \<lparr>working_buffer = [3, 0x0A, 1, 5], pos = 3\<rparr>, cursor = 4, current_message_end = 5,
       field_end = 5, parent_message_ends = []\<rparr> = Inl EMPTY_OPTIONAL_DEREFERENCE \<and>
   readEnum_FromNumber TYPE_INT32 None Int8
      \<lparr>inp = \<lparr>working_buffer = [3, 0x0A, 1, 5], pos = 3\<rparr>, cursor = 4, current_message_end = 5,
       field_end = 5, parent_message_ends = []\<rparr> = Inl EMPTY_OPTIONAL_DEREFERENCE \<and>
   readEnum_FromNumber TYPE_FLOAT None Int8
      \<lparr>inp = \<lparr>working_buffer = [3, 0x0A, 1, 5], pos = 3\<rparr>, cursor = 4, current_message_end = 5,
       field_end = 5, parent_message_ends = []\<rparr> = Inl PROTOBUF_BAD_CAST \<and>
   readEnum_FromNumber TYPE_INT32 (prepareSetOfEnumValues None [(''RED'', 5)]) Int8
      \<lparr>inp = \<lparr>working_buffer = [3, 0x0A, 1, 5], pos = 3\<rparr>, cursor = 4, current_message_end = 5,
       field_end = 5, parent_message_ends = []\<rparr>
     = Inr (Some 5, \<lparr>inp = \<lparr>working_buffer = [3, 0x0A, 1, 5], pos = 4\<rparr>, cursor = 5,
                      current_message_end = 5, field_end = 0, parent_message_ends = []\<rparr>) \<and>
   readEnum_Enum
      \<lparr>enum_type = [(''RED'', 5)], enum_pbnumber_to_name_map = None, enum_pbnumber_to_value_map = None\<rparr>
      Int8
      \<lparr>inp = \<lparr>working_buffer = [3, 0x0A, 1, 5], pos = 3\<rparr>, cursor = 4, current_message_end = 5,
       field_end = 5, parent_message_ends = []\<rparr> = Inl EMPTY_OPTIONAL_DEREFERENCE \<and>
   map_sum id fst (readStringInto_Enum
      \<lparr>enum_type = [(''RED'', 5)], enum_pbnumber_to_name_map = None, enum_pbnumber_to_value_map = None\<rparr>
      \<lparr>inp = \<lparr>working_buffer = [3, 0x0A, 1, 5], pos = 3\<rparr>, cursor = 4, current_message_end = 5,
       field_end = 5, parent_message_ends = []\<rparr>) = Inr (Some ''RED'')"
proof -
  let ?s = "\<lparr>inp = \<lparr>working_buffer = [3, 0x0A, 1, 5 :: byte], pos = 3\<rparr>, cursor = 4,
             current_message_end = 5, field_end = 5, parent_message_ends = []\<rparr>"
  let ?s' = "\<lparr>inp = \<lparr>working_buffer = [3, 0x0A, 1, 5 :: byte], pos = 4\<rparr>, cursor = 5,
              current_message_end = 5, field_end = 0, parent_message_ends = []\<rparr>"
  let ?c = "\<lparr>enum_type = [(''RED'', 5)], enum_pbnumber_to_name_map = None,
             enum_pbnumber_to_value_map = None\<rparr>"
  have str: "readStringInto ?s = Inr (Some [5], ?s')"
    by (simp add: readStringInto_def readBinary_def readStrict_def REACHED_END_def)
  have int: "readInt ?s = Inr (Some 5, ?s')"
    by (simp add: readInt_def readUInt_def readVarint_def READ_HELPER.simps readStrict1_def
          END_OF_VARINT_numeral REACHED_END_def)
  then have fld: "readField TYPE_INT32 ?s = Inr (Some (Integer Int64 5), ?s')"
    by (simp add: as_Integer_def)
  have cast: "numericCast_number Int8 (Integer Int64 5) = Inr 5"
    by (simp add: numericCast_number_def numericCast_def numeric_cast_def)
  note inst = readEnum_needs_prepareEnumMapping [of None Int8 ?s _ None ?c]
  from inst [of TYPE_INT32] str have c1: "readEnum_FromString None Int8 ?s = Inl EMPTY_OPTIONAL_DEREFERENCE"
    by blast
  from inst [of TYPE_INT32] fld cast
  have c2: "readEnum_FromNumber TYPE_INT32 None Int8 ?s = Inl EMPTY_OPTIONAL_DEREFERENCE"
    by auto
  from inst [of TYPE_FLOAT] have c3: "readEnum_FromNumber TYPE_FLOAT None Int8 ?s = Inl PROTOBUF_BAD_CAST"
    by simp
  from inst [of TYPE_INT32] int have c4: "readEnum_Enum ?c Int8 ?s = Inl EMPTY_OPTIONAL_DEREFERENCE"
    by auto
  have c5: "readEnum_FromNumber TYPE_INT32 (prepareSetOfEnumValues None [(''RED'', 5)]) Int8 ?s
      = Inr (Some 5, ?s')"
    using fld cast by (simp add: readEnum_FromNumber_def prepareSetOfEnumValues_def del: readField.simps)
  have c6: "map_sum id fst (readStringInto_Enum ?c ?s) = Inr (Some ''RED'')"
    using int by (simp add: readStringInto_Enum_def prepareEnumPbNumberToNameMap_def emplace_def)
  from c1 c2 c3 c4 c5 c6 show ?thesis
    by simp
qed

text \<open>
  The claim as the spec words it fails: calls of \<open>readEnum8\<close> on converters whose
  map was never prepared are well defined.  The \<open>float\<close> converter raises BadCast
  before any read; the \<open>UInt64\<close> converter raises BadCast on the wire value 300,
  which does not pass the cast to \<open>Int8\<close>; the \<open>TYPE_ENUM\<close> converter returns
  \<open>false\<close> on a field that is already consumed.
\<close>

theorem readEnum_needs_prepareEnumMapping_counterexample:
  "readEnum_FromNumber TYPE_FLOAT None Int8
      \<lparr>inp = \<lparr>working_buffer = [5, 0x0D, 0x00, 0x40, 0x96, 0x43], pos = 2\<rparr>, cursor = 3,
       current_message_end = 7, field_end = 7, parent_message_ends = []\<rparr>
     = Inl PROTOBUF_BAD_CAST \<and>
   readEnum_FromNumber TYPE_UINT64 None Int8
      \<lparr>inp = \<lparr>working_buffer = [3, 8, 0xAC, 2], pos = 2\<rparr>, cursor = 3,
       current_message_end = 5, field_end = 0xFFFFFFFFFFFFFFFF, parent_message_ends = []\<rparr>
     = Inl PROTOBUF_BAD_CAST \<and>
   readEnum_Enum
      \<lparr>enum_type = [(''RED'', 5)], enum_pbnumber_to_name_map = None, enum_pbnumber_to_value_map = None\<rparr>
      Int8
      \<lparr>inp = \<lparr>working_buffer = [2, 8, 5], pos = 3\<rparr>, cursor = 4,
       current_message_end = 4, field_end = 0, parent_message_ends = []\<rparr>
     = Inr (None, \<lparr>inp = \<lparr>working_buffer = [2, 8, 5], pos = 3\<rparr>, cursor = 4,
                    current_message_end = 4, field_end = 0, parent_message_ends = []\<rparr>)"
  by (simp add: readEnum_FromNumber_def cannotConvertType_def cannotConvertValue_def
        readEnum_Enum_def readInt_def readUInt_def readVarint_def READ_HELPER.simps
        readStrict1_def REACHED_END_def as_unsigned_def numericCast_number_def numericCast_def
        numeric_cast_def)

section \<open>Unknown fields in the dispatcher\<close>

text \<open>
  C4.  The schema has one field, number 1, a nested message whose field 1 is the leaf
  of column 0.  On the row \<open>0A 02 08 2A\<close> (field 1: the nested message with field 1 =
  42) \<open>readColumnIndex\<close> yields column 0.  With the unknown field 5 (a varint 7,
  bytes \<open>28 07\<close>) put before it, the row is \<open>28 07 0A 02 08 2A\<close> and
  \<open>readColumnIndex\<close> returns \<open>false\<close> without having yielded any column: the linear
  advance for field 5 moves \<open>current_field_index\<close> past field 1, and field 1, having a
  nested message, is not in \<open>field_number_to_field_map\<close>.  An unknown group field with
  an inner field (\<open>0B 08 01 0C\<close>) before the known field 2 raises UnknownFormat from
  \<open>ignoreGroup\<close>, where the row without it yields column 0.
\<close>

theorem readColumnIndex_unknown_field:
  "andThen (startMessage_reader (Message [Field 1 7 (Some (Message [Field 1 0 None]))])
              \<lparr>working_buffer = [0x04, 0x0A, 0x02, 0x08, 0x2A], pos = 0\<rparr>)
     (\<lambda>(b, r). case readColumnIndex 3 r of None \<Rightarrow> Inr None
                | Some res \<Rightarrow> andThen res (\<lambda>(column_index, r1). Inr (Some column_index)))
     = Inr (Some (Some 0)) \<and>
   andThen (startMessage_reader (Message [Field 1 7 (Some (Message [Field 1 0 None]))])
              \<lparr>working_buffer = [0x06, 0x28, 0x07, 0x0A, 0x02, 0x08, 0x2A], pos = 0\<rparr>)
     (\<lambda>(b, r). case readColumnIndex 4 r of None \<Rightarrow> Inr None
                | Some res \<Rightarrow> andThen res (\<lambda>(column_index, r1). Inr (Some column_index)))
     = Inr (Some None) \<and>
   andThen (startMessage_reader (Message [Field 2 0 None])
              \<lparr>working_buffer = [0x02, 0x10, 0x01], pos = 0\<rparr>)
     (\<lambda>(b, r). case readColumnIndex 3 r of None \<Rightarrow> Inr None
                | Some res \<Rightarrow> andThen res (\<lambda>(column_index, r1). Inr (Some column_index)))
     = Inr (Some (Some 0)) \<and>
   andThen (startMessage_reader (Message [Field 2 0 None])
              \<lparr>working_buffer = [0x06, 0x0B, 0x08, 0x01, 0x0C, 0x10, 0x01], pos = 0\<rparr>)
     (\<lambda>(b, r). case readColumnIndex 3 r of None \<Rightarrow> Inr None
                | Some res \<Rightarrow> andThen res (\<lambda>(column_index, r1). Inr (Some column_index)))
     = Inl UNKNOWN_PROTOBUF_FORMAT"
  by code_simp


end
